theory Spec2Isabelle
  imports Main
begin

section \<open>The store\<close>

text \<open>
  A table is the list of its rows in insertion order. The three query shapes the code
  uses are: \<open>select ... where p .all()\<close> (every matching row), \<open>select ... where p .get()\<close>
  (the first matching row, or nothing) and \<open>delete ... where p\<close>.

  Timestamps are stored by the application as ISO-8601 strings of one fixed width, on
  which the store's string comparison and JavaScript's \<open>Date\<close> comparison both agree with
  the order of the instants; an instant is modelled as its number of milliseconds since
  the epoch.
\<close>

definition db_select_all :: "('r \<Rightarrow> bool) \<Rightarrow> 'r list \<Rightarrow> 'r list" where
  "db_select_all p tbl = filter p tbl"

definition db_select_get :: "('r \<Rightarrow> bool) \<Rightarrow> 'r list \<Rightarrow> 'r option" where
  "db_select_get p tbl = find p tbl"

definition db_delete :: "('r \<Rightarrow> bool) \<Rightarrow> 'r list \<Rightarrow> 'r list" where
  "db_delete p tbl = filter (\<lambda>r. \<not> p r) tbl"

section \<open>Session lifecycle (src/lib/session.ts)\<close>

record session =
  s_id :: nat
  s_userId :: nat
  s_token :: string
  s_createdAt :: int
  s_expiresAt :: int

definition MAX_SESSIONS_PER_USER :: nat where
  "MAX_SESSIONS_PER_USER = 1"

definition SESSION_EXPIRY_MS :: int where
  "SESSION_EXPIRY_MS = 7 * 24 * 60 * 60 * 1000"

text \<open>The rows \<open>enforceSessionLimit\<close> selects for deletion: filter, stable sort, slice.\<close>

definition sessionsToDelete :: "string \<Rightarrow> session list \<Rightarrow> session list" where
  "sessionsToDelete keepToken userSessions =
     take (length userSessions - MAX_SESSIONS_PER_USER)
       (sort_key s_createdAt (filter (\<lambda>s. s_token s \<noteq> keepToken) userSessions))"

text \<open>The \<open>for\<close> loop of \<open>enforceSessionLimit\<close>: one delete by token per selected row.\<close>

fun delete_each :: "session list \<Rightarrow> session list \<Rightarrow> nat \<Rightarrow> session list \<times> nat" where
  "delete_each [] tbl deletedCount = (tbl, deletedCount)"
| "delete_each (session # rest) tbl deletedCount =
     delete_each rest (db_delete (\<lambda>r. s_token r = s_token session) tbl) (Suc deletedCount)"

definition enforceSessionLimit :: "nat \<Rightarrow> string \<Rightarrow> session list \<Rightarrow> nat \<times> session list" where
  "enforceSessionLimit userId keepToken tbl =
     (let userSessions = db_select_all (\<lambda>s. s_userId s = userId) tbl in
      if length userSessions \<le> MAX_SESSIONS_PER_USER then (0, tbl)
      else
        (case delete_each (sessionsToDelete keepToken userSessions) tbl 0 of
           (tbl', deletedCount) \<Rightarrow> (deletedCount, tbl')))"

definition cleanupExpiredSessions :: "int \<Rightarrow> session list \<Rightarrow> nat \<times> session list" where
  "cleanupExpiredSessions now tbl = (0, db_delete (\<lambda>s. s_expiresAt s \<le> now) tbl)"

definition validateSessionToken :: "int \<Rightarrow> string \<Rightarrow> session list \<Rightarrow> session option \<times> session list" where
  "validateSessionToken now token tbl =
     (case db_select_get (\<lambda>s. s_token s = token) tbl of
        None \<Rightarrow> (None, tbl)
      | Some session \<Rightarrow>
          if s_expiresAt session \<le> now
          then (None, db_delete (\<lambda>s. s_token s = token) tbl)
          else (Some session, tbl))"

definition invalidateSession :: "string \<Rightarrow> session list \<Rightarrow> bool \<times> session list" where
  "invalidateSession token tbl =
     (case db_select_get (\<lambda>s. s_token s = token) tbl of
        None \<Rightarrow> (False, tbl)
      | Some session \<Rightarrow> (True, db_delete (\<lambda>s. s_token s = token) tbl))"

definition getUserActiveSessions :: "int \<Rightarrow> nat \<Rightarrow> session list \<Rightarrow> session list" where
  "getUserActiveSessions now userId tbl =
     db_select_all (\<lambda>s. s_userId s = userId \<and> now < s_expiresAt s) tbl"

record session_info =
  i_id :: nat
  i_userId :: nat
  i_createdAt :: int
  i_expiresAt :: int
  isExpired :: bool

definition getSessionInfo :: "int \<Rightarrow> string \<Rightarrow> session list \<Rightarrow> session_info option" where
  "getSessionInfo now token tbl =
     (case db_select_get (\<lambda>s. s_token s = token) tbl of
        None \<Rightarrow> None
      | Some session \<Rightarrow>
          Some \<lparr> i_id = s_id session, i_userId = s_userId session,
                 i_createdAt = s_createdAt session, i_expiresAt = s_expiresAt session,
                 isExpired = (s_expiresAt session < now) \<rparr>)"

text \<open>Tokens are a unique key of the session table.\<close>

definition unique_tokens :: "session list \<Rightarrow> bool" where
  "unique_tokens tbl = distinct (map s_token tbl)"

text \<open>The sessions of one owner, as \<open>enforceSessionLimit\<close> selects them.\<close>

definition owner_sessions :: "nat \<Rightarrow> session list \<Rightarrow> session list" where
  "owner_sessions userId tbl = db_select_all (\<lambda>s. s_userId s = userId) tbl"

section \<open>Errors\<close>

text \<open>
  A procedure either returns or throws. What it throws is a \<open>TRPCError\<close> with a code, or
  a plain \<open>Error\<close> with a message (the library functions and the store throw these).
\<close>

datatype code = UNAUTHORIZED | BAD_REQUEST | NOT_FOUND | CONFLICT | INTERNAL_SERVER_ERROR

datatype error = TRPCError code | Error string

section \<open>Secure random generation (src/lib/random.ts)\<close>

text \<open>
  \<open>crypto.randomInt(min, max)\<close> draws an integer \<open>n\<close> with \<open>min \<le> n < max\<close> from the
  system's entropy. The entropy is a parameter of the model: a sequence of natural
  numbers read at a position that advances with each draw, each number reduced into the
  requested range. Every value of the range can be drawn.
\<close>

definition crypto_randomInt :: "(nat \<Rightarrow> nat) \<Rightarrow> int \<Rightarrow> int \<Rightarrow> nat \<Rightarrow> int \<times> nat" where
  "crypto_randomInt entropy minv maxv pos =
     (minv + int (entropy pos mod nat (maxv - minv)), Suc pos)"

definition secureRandomInt :: "(nat \<Rightarrow> nat) \<Rightarrow> int \<Rightarrow> int \<Rightarrow> nat \<Rightarrow> error + (int \<times> nat)" where
  "secureRandomInt entropy minv maxv pos =
     (if minv > maxv then Inl (Error ''min must be less than or equal to max'')
      else Inr (crypto_randomInt entropy minv (maxv + 1) pos))"

text \<open>JavaScript's conversion of an integer to its decimal string, used by \<open>+=\<close>.\<close>

definition digit_char :: "nat \<Rightarrow> char" where
  "digit_char d = ''0123456789'' ! (d mod 10)"

fun decimal :: "nat \<Rightarrow> string" where
  "decimal n = (if n < 10 then [digit_char n] else decimal (n div 10) @ [digit_char (n mod 10)])"

declare decimal.simps [simp del]

definition Number_toString :: "int \<Rightarrow> string" where
  "Number_toString n = (if n < 0 then CHR ''-'' # decimal (nat (- n)) else decimal (nat n))"

text \<open>The \<open>for\<close> loop of \<open>secureRandomNumeric\<close>, counting the iterations left.\<close>

fun numeric_loop :: "(nat \<Rightarrow> nat) \<Rightarrow> nat \<Rightarrow> string \<Rightarrow> nat \<Rightarrow> error + (string \<times> nat)" where
  "numeric_loop entropy 0 result pos = Inr (result, pos)"
| "numeric_loop entropy (Suc k) result pos =
     (case secureRandomInt entropy 0 9 pos of
        Inl e \<Rightarrow> Inl e
      | Inr (d, pos') \<Rightarrow> numeric_loop entropy k (result @ Number_toString d) pos')"

definition secureRandomNumeric :: "(nat \<Rightarrow> nat) \<Rightarrow> int \<Rightarrow> nat \<Rightarrow> error + (string \<times> nat)" where
  "secureRandomNumeric entropy len pos =
     (if len \<le> 0 then Inl (Error ''length must be greater than 0'')
      else numeric_loop entropy (nat len) [] pos)"

definition generateSecureAccountNumber :: "(nat \<Rightarrow> nat) \<Rightarrow> nat \<Rightarrow> error + (string \<times> nat)" where
  "generateSecureAccountNumber entropy pos = secureRandomNumeric entropy 10 pos"

section \<open>Accounts and the ledger (the account router)\<close>

text \<open>
  Modelled from the spec: the table schema is not among the sources. An account is
  \<open>{id, ownerId, accountNumber, accountType, balance, status}\<close> and a transaction is
  \<open>{id, accountId, kind, amount, description, status, createdAt, processedAt}\<close>; the
  columns carry the names the router uses. The type \<open>'n\<close> of amounts and balances is
  left open: the router only compares an amount with 0 and lets the store add an amount
  to a balance. Row ids are assigned by the store, one more than the largest id of the
  table; \<open>createdAt\<close> is the store's timestamp of the insert, in whole seconds.
\<close>

datatype account_type = Checking | Savings

record 'n account =
  a_id :: nat
  a_userId :: nat
  a_accountNumber :: string
  a_accountType :: account_type
  a_balance :: 'n
  a_status :: string

record 'n transaction =
  t_id :: nat
  t_accountId :: nat
  t_type :: string
  t_amount :: 'n
  t_description :: string
  t_status :: string
  t_createdAt :: int
  t_processedAt :: int

record 'n store =
  accounts :: "'n account list"
  transactions :: "'n transaction list"

definition empty_store :: "'n store" where
  "empty_store = \<lparr> accounts = [], transactions = [] \<rparr>"

definition next_id :: "nat list \<Rightarrow> nat" where
  "next_id ids = Suc (fold max ids 0)"

text \<open>\<open>orderBy(desc(key))\<close>, and the first row of a result (\<open>limit(1).get()\<close>).\<close>

definition order_by_desc :: "('r \<Rightarrow> int) \<Rightarrow> 'r list \<Rightarrow> 'r list" where
  "order_by_desc key rows = sort_key (\<lambda>r. - key r) rows"

definition first_row :: "'r list \<Rightarrow> 'r option" where
  "first_row rows = (case rows of [] \<Rightarrow> None | r # _ \<Rightarrow> Some r)"

definition left_join :: "('l \<Rightarrow> 'r \<Rightarrow> bool) \<Rightarrow> 'l list \<Rightarrow> 'r list \<Rightarrow> ('l \<times> 'r option) list" where
  "left_join on ls rs =
     concat (map (\<lambda>l. case filter (on l) rs of
                         [] \<Rightarrow> [(l, None)]
                       | m # ms \<Rightarrow> map (\<lambda>r. (l, Some r)) (m # ms)) ls)"

text \<open>
  \<open>db.transaction\<close> as the router calls it, with an \<open>async\<close> callback. The module that
  opens the store is not among the sources; the repository's notes on it speak of a
  \<open>Database\<close> instance closed by \<open>closeDb\<close>, the synchronous SQLite driver. That driver
  opens the unit, calls the callback, is handed a promise before the callback's first
  statement has run, and commits the empty unit. The statements of the callback then run
  one after the other against the store itself. What the callback has written when one
  of its statements throws therefore stays written, and the error reaches the caller;
  nothing is undone.
\<close>

definition db_transaction :: "('s \<Rightarrow> (error + 'r) \<times> 's) \<Rightarrow> 's \<Rightarrow> (error + 'r) \<times> 's" where
  "db_transaction callback st = callback st"

subsection \<open>createAccount\<close>

definition generateAccountNumber :: "(nat \<Rightarrow> nat) \<Rightarrow> nat \<Rightarrow> error + (string \<times> nat)" where
  "generateAccountNumber entropy pos = generateSecureAccountNumber entropy pos"

text \<open>
  The \<open>while (!isUnique)\<close> loop has no bound of its own; \<open>fuel\<close> counts the iterations
  allowed, and \<open>None\<close> stands for a loop that has not ended within them.
\<close>

fun unique_number_loop ::
  "nat \<Rightarrow> (nat \<Rightarrow> nat) \<Rightarrow> 'n account list \<Rightarrow> nat \<Rightarrow> (error + (string \<times> nat)) option" where
  "unique_number_loop 0 entropy accs pos = None"
| "unique_number_loop (Suc fuel) entropy accs pos =
     (case generateAccountNumber entropy pos of
        Inl e \<Rightarrow> Some (Inl e)
      | Inr (accountNumber, pos') \<Rightarrow>
          (case db_select_get (\<lambda>a. a_accountNumber a = accountNumber) accs of
             None \<Rightarrow> Some (Inr (accountNumber, pos'))
           | Some existing \<Rightarrow> unique_number_loop fuel entropy accs pos'))"

text \<open>
  \<open>ctx_user\<close> is the caller's user id, absent for an unauthenticated call, which
  \<open>protectedProcedure\<close> rejects. \<open>lost\<close> says that the store answers the read after the
  insert with no row.
\<close>

definition createAccount ::
  "nat \<Rightarrow> (nat \<Rightarrow> nat) \<Rightarrow> bool \<Rightarrow> nat option \<Rightarrow> account_type \<Rightarrow> ('n::zero) store \<times> nat
     \<Rightarrow> ((error + 'n account) \<times> ('n store \<times> nat)) option" where
  "createAccount fuel entropy lost ctx_user accountType st =
     (case ctx_user of
        None \<Rightarrow> Some (Inl (TRPCError UNAUTHORIZED), st)
      | Some uid \<Rightarrow>
          (case db_select_get (\<lambda>a. a_userId a = uid \<and> a_accountType a = accountType)
                  (accounts (fst st)) of
             Some existingAccount \<Rightarrow> Some (Inl (TRPCError CONFLICT), st)
           | None \<Rightarrow>
               (case unique_number_loop fuel entropy (accounts (fst st)) (snd st) of
                  None \<Rightarrow> None
                | Some (Inl e) \<Rightarrow> Some (Inl e, st)
                | Some (Inr (accountNumber, pos')) \<Rightarrow>
                    (let inserted = (fst st)\<lparr> accounts := accounts (fst st) @
                           [\<lparr> a_id = next_id (map a_id (accounts (fst st))), a_userId = uid,
                              a_accountNumber = accountNumber, a_accountType = accountType,
                              a_balance = 0, a_status = ''active'' \<rparr>] \<rparr>;
                         account = (if lost then None
                                    else db_select_get (\<lambda>a. a_accountNumber a = accountNumber)
                                           (accounts inserted))
                     in case account of
                          None \<Rightarrow> Some (Inl (TRPCError INTERNAL_SERVER_ERROR), (inserted, pos'))
                        | Some a \<Rightarrow> Some (Inr a, (inserted, pos'))))))"

subsection \<open>fundAccount\<close>

datatype funding_type = Card | Bank

definition funding_type_name :: "funding_type \<Rightarrow> string" where
  "funding_type_name ty = (case ty of Card \<Rightarrow> ''card'' | Bank \<Rightarrow> ''bank'')"

record funding_source =
  fs_type :: funding_type
  fs_accountNumber :: string
  fs_routingNumber :: "string option"

record 'n fund_input =
  in_accountId :: nat
  in_amount :: 'n
  in_fundingSource :: funding_source

record 'n fund_result =
  transaction :: "'n transaction option"
  newBalance :: "'n option"

text \<open>The four store calls of the funding unit; any one of them may throw.\<close>

datatype fund_step = InsertTransaction | SelectTransaction | UpdateBalance | SelectAccount

definition store_failure :: error where
  "store_failure = Error ''store call failed''"

text \<open>
  The callback passed to \<open>db.transaction\<close>. \<open>fault\<close> names the store call that throws,
  if any; the callback returns the store as its writes have left it at that point.
  The insert gives \<open>processedAt\<close> the application's clock \<open>now\<close> and gives no
  \<open>createdAt\<close>: that column is filled by the store from its own clock \<open>db_clock\<close>, which
  counts whole seconds, so two inserts of one second carry the same \<open>createdAt\<close>.
\<close>

definition fund_unit ::
  "fund_step option \<Rightarrow> int \<Rightarrow> int \<Rightarrow> ('n::plus) fund_input \<Rightarrow> 'n \<Rightarrow> 'n store
     \<Rightarrow> (error + ('n transaction option \<times> 'n account option)) \<times> 'n store" where
  "fund_unit fault db_clock now input amount tx =
     (if fault = Some InsertTransaction then (Inl store_failure, tx)
      else
        let tx1 = tx\<lparr> transactions := transactions tx @
                    [\<lparr> t_id = next_id (map t_id (transactions tx)),
                       t_accountId = in_accountId input,
                       t_type = ''deposit'',
                       t_amount = amount,
                       t_description =
                         ''Funding from '' @ funding_type_name (fs_type (in_fundingSource input)),
                       t_status = ''completed'',
                       t_createdAt = db_clock,
                       t_processedAt = now \<rparr>] \<rparr>
        in
        if fault = Some SelectTransaction then (Inl store_failure, tx1)
        else
          let found = first_row (order_by_desc t_createdAt
                        (db_select_all (\<lambda>t. t_accountId t = in_accountId input) (transactions tx1)))
          in
          if fault = Some UpdateBalance then (Inl store_failure, tx1)
          else
            let tx2 = tx1\<lparr> accounts :=
                        map (\<lambda>a. if a_id a = in_accountId input
                                  then a\<lparr> a_balance := a_balance a + amount \<rparr> else a)
                          (accounts tx1) \<rparr>
            in
            if fault = Some SelectAccount then (Inl store_failure, tx2)
            else
              let updatedAccount = db_select_get (\<lambda>a. a_id a = in_accountId input) (accounts tx2)
              in (Inr (found, updatedAccount), tx2))"

definition fundAccount ::
  "fund_step option \<Rightarrow> int \<Rightarrow> int \<Rightarrow> nat option \<Rightarrow> ('n::{zero,plus,ord}) fund_input
     \<Rightarrow> 'n store \<Rightarrow> (error + 'n fund_result) \<times> 'n store" where
  "fundAccount fault db_clock now ctx_user input st =
     (case ctx_user of
        None \<Rightarrow> (Inl (TRPCError UNAUTHORIZED), st)
      | Some uid \<Rightarrow>
          if \<not> 0 < in_amount input then (Inl (TRPCError BAD_REQUEST), st)
          else
            (case db_select_get (\<lambda>a. a_id a = in_accountId input \<and> a_userId a = uid)
                    (accounts st) of
               None \<Rightarrow> (Inl (TRPCError NOT_FOUND), st)
             | Some account \<Rightarrow>
                 if a_status account \<noteq> ''active'' then (Inl (TRPCError BAD_REQUEST), st)
                 else
                   (case db_transaction (fund_unit fault db_clock now input (in_amount input)) st of
                      (Inl e, st') \<Rightarrow> (Inl e, st')
                    | (Inr result, st') \<Rightarrow>
                        (Inr \<lparr> transaction = fst result,
                               newBalance = map_option a_balance (snd result) \<rparr>, st'))))"

subsection \<open>getTransactions\<close>

record 'n transaction_row =
  r_id :: nat
  r_accountId :: nat
  r_type :: string
  r_amount :: 'n
  r_description :: string
  r_status :: string
  r_createdAt :: int
  r_processedAt :: int
  r_accountType :: "account_type option"

definition select_row :: "'n transaction \<times> 'n account option \<Rightarrow> 'n transaction_row" where
  "select_row joined =
     \<lparr> r_id = t_id (fst joined), r_accountId = t_accountId (fst joined),
       r_type = t_type (fst joined), r_amount = t_amount (fst joined),
       r_description = t_description (fst joined), r_status = t_status (fst joined),
       r_createdAt = t_createdAt (fst joined), r_processedAt = t_processedAt (fst joined),
       r_accountType = map_option a_accountType (snd joined) \<rparr>"

definition getTransactions ::
  "nat option \<Rightarrow> nat \<Rightarrow> 'n store \<Rightarrow> error + 'n transaction_row list" where
  "getTransactions ctx_user accountId st =
     (case ctx_user of
        None \<Rightarrow> Inl (TRPCError UNAUTHORIZED)
      | Some uid \<Rightarrow>
          (case db_select_get (\<lambda>a. a_id a = accountId \<and> a_userId a = uid) (accounts st) of
             None \<Rightarrow> Inl (TRPCError NOT_FOUND)
           | Some account \<Rightarrow>
               Inr (map select_row
                     (order_by_desc (\<lambda>joined. t_createdAt (fst joined))
                       (db_select_all (\<lambda>joined. t_accountId (fst joined) = accountId)
                         (left_join (\<lambda>t a. t_accountId t = a_id a)
                            (transactions st) (accounts st)))))))"

subsection \<open>Runs of the core, and the ledger sum\<close>

text \<open>
  A run is a sequence of calls of the two writing procedures. The store calls of a run
  all succeed; a call can still be rejected with an error of its own.
\<close>

datatype 'n operation =
    CreateAccount nat bool "nat option" account_type
  | FundAccount int int "nat option" "'n fund_input"

fun run ::
  "(nat \<Rightarrow> nat) \<Rightarrow> ('n::{zero,plus,ord}) operation list \<Rightarrow> 'n store \<times> nat
     \<Rightarrow> ('n store \<times> nat) option" where
  "run entropy [] st = Some st"
| "run entropy (CreateAccount fuel lost ctx_user accountType # ops) st =
     (case createAccount fuel entropy lost ctx_user accountType st of
        None \<Rightarrow> None
      | Some (result, st') \<Rightarrow> run entropy ops st')"
| "run entropy (FundAccount db_clock now ctx_user input # ops) st =
     run entropy ops (snd (fundAccount None db_clock now ctx_user input (fst st)), snd st)"

text \<open>
  The signed amount of a ledger row: a deposit counts with its amount, any other kind
  against it. The ledger sum of an account adds the signed amounts of its rows in the
  order of their insertion, starting from 0.
\<close>

definition signed_amount :: "('n::uminus) transaction \<Rightarrow> 'n" where
  "signed_amount t = (if t_type t = ''deposit'' then t_amount t else - t_amount t)"

definition ledger_sum :: "nat \<Rightarrow> ('n::{zero,plus,uminus}) transaction list \<Rightarrow> 'n" where
  "ledger_sum accountId txs =
     foldl (+) 0 (map signed_amount (filter (\<lambda>t. t_accountId t = accountId) txs))"



section \<open>Facts about the store\<close>

lemma find_unique_key:
  "distinct (map k tbl) \<Longrightarrow> r \<in> set tbl \<Longrightarrow> find (\<lambda>x. k x = k r) tbl = Some r"
proof (induction tbl)
  case Nil
  then show ?case by simp
next
  case (Cons x xs)
  show ?case
  proof (cases "x = r")
    case True
    then show ?thesis by simp
  next
    case False
    with Cons.prems have "r \<in> set xs" and "k x \<noteq> k r" by auto
    with Cons show ?thesis by simp
  qed
qed

lemma find_absent_key:
  "key \<notin> set (map k tbl) \<Longrightarrow> find (\<lambda>x. k x = key) tbl = None"
  by (induction tbl) auto

lemma filter_absent_key:
  "key \<notin> set (map k tbl) \<Longrightarrow> filter (\<lambda>x. k x \<noteq> key) tbl = tbl"
  by (induction tbl) auto

section \<open>Logout\<close>

text \<open>
  C9. \<open>invalidateSession\<close> on a stored token deletes its session and answers true; on a
  token that is not stored it changes nothing and answers false. After a successful
  call the token is gone, so a second call answers false. The result is a plain
  boolean with the table: there is no error outcome.
\<close>

theorem invalidateSession_true_then_false:
  "(token \<in> set (map s_token tbl) \<longrightarrow>
      invalidateSession token tbl = (True, db_delete (\<lambda>s. s_token s = token) tbl)
      \<and> token \<notin> set (map s_token (snd (invalidateSession token tbl)))
      \<and> invalidateSession token (snd (invalidateSession token tbl))
          = (False, snd (invalidateSession token tbl)))
   \<and> (token \<notin> set (map s_token tbl) \<longrightarrow> invalidateSession token tbl = (False, tbl))"
proof (intro conjI impI)
  assume absent: "token \<notin> set (map s_token tbl)"
  then show "invalidateSession token tbl = (False, tbl)"
    by (simp add: invalidateSession_def db_select_get_def find_absent_key)
next
  assume present: "token \<in> set (map s_token tbl)"
  then obtain r where "find (\<lambda>s. s_token s = token) tbl = Some r"
    by (cases "find (\<lambda>s. s_token s = token) tbl") (auto simp: find_None_iff)
  then show first: "invalidateSession token tbl = (True, db_delete (\<lambda>s. s_token s = token) tbl)"
    by (simp add: invalidateSession_def db_select_get_def)
  show gone: "token \<notin> set (map s_token (snd (invalidateSession token tbl)))"
    by (auto simp: first db_delete_def)
  show "invalidateSession token (snd (invalidateSession token tbl))
          = (False, snd (invalidateSession token tbl))"
    using gone by (simp add: invalidateSession_def db_select_get_def find_absent_key)
qed

theorem invalidateSession_true_then_false_witness:
  "invalidateSession ''T1''
     [\<lparr> s_id = 1, s_userId = 7, s_token = ''T1'', s_createdAt = 0, s_expiresAt = 10 \<rparr>]
     = (True, [])
   \<and> invalidateSession ''T1'' [] = (False, [])"
proof -
  let ?tbl = "[\<lparr> s_id = 1, s_userId = 7, s_token = ''T1'', s_createdAt = 0, s_expiresAt = 10 \<rparr>]"
  have stored: "''T1'' \<in> set (map s_token ?tbl)" by simp
  have "invalidateSession ''T1'' ?tbl = (True, db_delete (\<lambda>s. s_token s = ''T1'') ?tbl)"
    and "invalidateSession ''T1'' (snd (invalidateSession ''T1'' ?tbl))
          = (False, snd (invalidateSession ''T1'' ?tbl))"
    using invalidateSession_true_then_false [of "''T1''" ?tbl] stored by blast+
  then show ?thesis by (simp add: db_delete_def)
qed

section \<open>Validation and expiry\<close>

lemma validateSessionToken_stored:
  assumes "unique_tokens tbl" and "S \<in> set tbl"
  shows "validateSessionToken now (s_token S) tbl =
           (if s_expiresAt S \<le> now
            then (None, db_delete (\<lambda>s. s_token s = s_token S) tbl)
            else (Some S, tbl))"
proof -
  have "find (\<lambda>s. s_token s = s_token S) tbl = Some S"
    using assms find_unique_key [of s_token tbl S] by (simp add: unique_tokens_def)
  then show ?thesis
    by (simp add: validateSessionToken_def db_select_get_def)
qed

text \<open>
  C3. For a stored session \<open>S\<close> (tokens being unique), \<open>validateSessionToken\<close> returns \<open>S\<close>
  and leaves the table alone exactly when \<open>now < expiresAt\<close>; it returns nothing exactly
  when \<open>expiresAt \<le> now\<close>, and then the record has been deleted. For a token that is not
  stored it returns nothing and changes nothing. \<open>getUserActiveSessions\<close> returns
  exactly the owner's sessions with \<open>now < expiresAt\<close>, the sessions that validate at
  that instant. A session expiring seven days after \<open>t0\<close> validates one millisecond
  before that instant and not at it.
\<close>

theorem validateSessionToken_expiry_boundary:
  assumes "unique_tokens tbl" and "S \<in> set tbl"
  shows "((fst (validateSessionToken now (s_token S) tbl) = Some S) = (now < s_expiresAt S))
       \<and> ((fst (validateSessionToken now (s_token S) tbl) = None) = (s_expiresAt S \<le> now))
       \<and> (now < s_expiresAt S \<longrightarrow> snd (validateSessionToken now (s_token S) tbl) = tbl)
       \<and> (s_expiresAt S \<le> now \<longrightarrow>
            snd (validateSessionToken now (s_token S) tbl)
              = db_delete (\<lambda>s. s_token s = s_token S) tbl
            \<and> S \<notin> set (snd (validateSessionToken now (s_token S) tbl)))
       \<and> (token \<notin> set (map s_token tbl) \<longrightarrow> validateSessionToken now token tbl = (None, tbl))
       \<and> set (getUserActiveSessions now userId tbl)
            = {s \<in> set tbl. s_userId s = userId \<and> now < s_expiresAt s}
       \<and> ((S \<in> set (getUserActiveSessions now (s_userId S) tbl))
            = (fst (validateSessionToken now (s_token S) tbl) = Some S))
       \<and> (s_expiresAt S = t0 + SESSION_EXPIRY_MS \<longrightarrow>
            SESSION_EXPIRY_MS = 604800000
            \<and> fst (validateSessionToken (t0 + 604800000) (s_token S) tbl) = None
            \<and> fst (validateSessionToken (t0 + 604800000 - 1) (s_token S) tbl) = Some S)"
proof -
  note stored = validateSessionToken_stored [OF assms]
  have a: "(fst (validateSessionToken now (s_token S) tbl) = Some S) = (now < s_expiresAt S)"
    by (auto simp: stored)
  have b: "(fst (validateSessionToken now (s_token S) tbl) = None) = (s_expiresAt S \<le> now)"
    by (simp add: stored)
  have c: "now < s_expiresAt S \<longrightarrow> snd (validateSessionToken now (s_token S) tbl) = tbl"
    by (simp add: stored)
  have d: "s_expiresAt S \<le> now \<longrightarrow>
            snd (validateSessionToken now (s_token S) tbl)
              = db_delete (\<lambda>s. s_token s = s_token S) tbl
            \<and> S \<notin> set (snd (validateSessionToken now (s_token S) tbl))"
    by (simp add: stored db_delete_def)
  have e: "token \<notin> set (map s_token tbl) \<longrightarrow> validateSessionToken now token tbl = (None, tbl)"
    by (simp add: validateSessionToken_def db_select_get_def find_absent_key)
  have f: "set (getUserActiveSessions now userId tbl)
            = {s \<in> set tbl. s_userId s = userId \<and> now < s_expiresAt s}"
    by (simp add: getUserActiveSessions_def db_select_all_def)
  have g: "(S \<in> set (getUserActiveSessions now (s_userId S) tbl))
            = (fst (validateSessionToken now (s_token S) tbl) = Some S)"
    using assms(2) by (simp add: a getUserActiveSessions_def db_select_all_def)
  have h: "s_expiresAt S = t0 + SESSION_EXPIRY_MS \<longrightarrow>
            SESSION_EXPIRY_MS = 604800000
            \<and> fst (validateSessionToken (t0 + 604800000) (s_token S) tbl) = None
            \<and> fst (validateSessionToken (t0 + 604800000 - 1) (s_token S) tbl) = Some S"
    by (simp add: stored SESSION_EXPIRY_MS_def)
  from a b c d e f g h show ?thesis by blast
qed

theorem validateSessionToken_expiry_boundary_witness:
  "fst (validateSessionToken 604800000 ''T''
     [\<lparr> s_id = 1, s_userId = 7, s_token = ''T'', s_createdAt = 0, s_expiresAt = 604800000 \<rparr>])
     = None
   \<and> fst (validateSessionToken 604799999 ''T''
     [\<lparr> s_id = 1, s_userId = 7, s_token = ''T'', s_createdAt = 0, s_expiresAt = 604800000 \<rparr>])
     = Some \<lparr> s_id = 1, s_userId = 7, s_token = ''T'', s_createdAt = 0, s_expiresAt = 604800000 \<rparr>"
proof -
  let ?S = "\<lparr> s_id = 1, s_userId = 7, s_token = ''T'', s_createdAt = 0, s_expiresAt = 604800000 \<rparr>"
  have u: "unique_tokens [?S]" by (simp add: unique_tokens_def)
  have m: "?S \<in> set [?S]" by simp
  have x: "s_expiresAt ?S = 0 + SESSION_EXPIRY_MS" by (simp add: SESSION_EXPIRY_MS_def)
  have "fst (validateSessionToken (0 + 604800000) (s_token ?S) [?S]) = None
      \<and> fst (validateSessionToken (0 + 604800000 - 1) (s_token ?S) [?S]) = Some ?S"
    using validateSessionToken_expiry_boundary [OF u m, of _ _ _ 0] x by blast
  then show ?thesis by simp
qed

text \<open>
  C10. \<open>getSessionInfo\<close> reports \<open>isExpired\<close> as \<open>expiresAt < now\<close>. At the instant
  \<open>now = expiresAt\<close> it therefore returns the record with \<open>isExpired\<close> false, while
  \<open>validateSessionToken\<close> at the same instant deletes the session and returns nothing.
\<close>

theorem getSessionInfo_differs_from_validate_at_expiry:
  assumes "unique_tokens tbl" and "S \<in> set tbl"
  shows "getSessionInfo now (s_token S) tbl
           = Some \<lparr> i_id = s_id S, i_userId = s_userId S, i_createdAt = s_createdAt S,
                    i_expiresAt = s_expiresAt S, isExpired = (s_expiresAt S < now) \<rparr>
       \<and> (s_expiresAt S = now \<longrightarrow>
            map_option isExpired (getSessionInfo now (s_token S) tbl) = Some False
            \<and> validateSessionToken now (s_token S) tbl
                = (None, db_delete (\<lambda>s. s_token s = s_token S) tbl)
            \<and> S \<notin> set (snd (validateSessionToken now (s_token S) tbl)))"
proof -
  have "find (\<lambda>s. s_token s = s_token S) tbl = Some S"
    using assms find_unique_key [of s_token tbl S] by (simp add: unique_tokens_def)
  then have info: "getSessionInfo now (s_token S) tbl
           = Some \<lparr> i_id = s_id S, i_userId = s_userId S, i_createdAt = s_createdAt S,
                    i_expiresAt = s_expiresAt S, isExpired = (s_expiresAt S < now) \<rparr>"
    by (simp add: getSessionInfo_def db_select_get_def)
  show ?thesis
    by (simp add: info validateSessionToken_stored [OF assms] db_delete_def)
qed

theorem getSessionInfo_differs_from_validate_at_expiry_witness:
  "map_option isExpired (getSessionInfo 50 ''T''
     [\<lparr> s_id = 1, s_userId = 7, s_token = ''T'', s_createdAt = 0, s_expiresAt = 50 \<rparr>])
     = Some False
   \<and> validateSessionToken 50 ''T''
     [\<lparr> s_id = 1, s_userId = 7, s_token = ''T'', s_createdAt = 0, s_expiresAt = 50 \<rparr>]
     = (None, [])"
proof -
  let ?S = "\<lparr> s_id = 1, s_userId = 7, s_token = ''T'', s_createdAt = 0, s_expiresAt = 50 \<rparr>"
  have u: "unique_tokens [?S]" by (simp add: unique_tokens_def)
  have m: "?S \<in> set [?S]" by simp
  have x: "s_expiresAt ?S = 50" by simp
  have "map_option isExpired (getSessionInfo 50 (s_token ?S) [?S]) = Some False
      \<and> validateSessionToken 50 (s_token ?S) [?S]
           = (None, db_delete (\<lambda>s. s_token s = s_token ?S) [?S])"
    using getSessionInfo_differs_from_validate_at_expiry [OF u m, of 50] x by blast
  then show ?thesis by (simp add: db_delete_def)
qed

section \<open>The expired-session sweep\<close>

lemma cleanupExpiredSessions_table:
  "set (snd (cleanupExpiredSessions now tbl)) = {s \<in> set tbl. now < s_expiresAt s}"
  by (auto simp: cleanupExpiredSessions_def db_delete_def)

lemma cleanupExpiredSessions_twice:
  "cleanupExpiredSessions now (snd (cleanupExpiredSessions now tbl))
     = (0, snd (cleanupExpiredSessions now tbl))"
  by (simp add: cleanupExpiredSessions_def db_delete_def)

text \<open>
  C6. The sweep deletes the sessions with \<open>expiresAt \<le> now\<close> in one delete, but the
  number it returns is the constant 0: here one of two sessions is removed and the
  call still answers 0.
\<close>

theorem cleanupExpiredSessions_returns_zero_after_removal:
  "cleanupExpiredSessions 10
     [\<lparr> s_id = 1, s_userId = 7, s_token = ''T1'', s_createdAt = 0, s_expiresAt = 10 \<rparr>,
      \<lparr> s_id = 2, s_userId = 7, s_token = ''T2'', s_createdAt = 1, s_expiresAt = 11 \<rparr>]
   = (0, [\<lparr> s_id = 2, s_userId = 7, s_token = ''T2'', s_createdAt = 1, s_expiresAt = 11 \<rparr>])"
  by (simp add: cleanupExpiredSessions_def db_delete_def)

section \<open>The per-owner session limit\<close>

lemma delete_each_eq:
  "delete_each D tbl c = (filter (\<lambda>r. s_token r \<notin> s_token ` set D) tbl, c + length D)"
  by (induction D arbitrary: tbl c) (auto simp: db_delete_def intro: filter_cong)

lemma filter_key_at_most_one:
  "distinct (map k U) \<Longrightarrow> length (filter (\<lambda>x. k x = key) U) \<le> 1"
  by (induction U) (auto simp: filter_empty_conv image_iff)

lemma length_filter_other_keys:
  assumes "distinct (map k U)"
  shows "length U - 1 \<le> length (filter (\<lambda>x. k x \<noteq> key) U)"
proof -
  have "length (filter (\<lambda>x. k x = key) U) + length (filter (\<lambda>x. \<not> k x = key) U) = length U"
    by (rule sum_length_filter_compl)
  with filter_key_at_most_one [OF assms, of key] show ?thesis by simp
qed

lemma length_filter_without:
  assumes "distinct (map k U)" and "set D \<subseteq> set U" and "distinct D"
  shows "length (filter (\<lambda>r. k r \<notin> k ` set D) U) = length U - length D"
proof -
  have dU: "distinct U" using assms(1) by (simp add: distinct_map)
  have inj: "inj_on k (set U)" using assms(1) by (simp add: distinct_map)
  have eq: "set (filter (\<lambda>r. k r \<notin> k ` set D) U) = set U - set D"
    using inj assms(2) by (auto dest: inj_onD)
  have "length (filter (\<lambda>r. k r \<notin> k ` set D) U)
          = card (set (filter (\<lambda>r. k r \<notin> k ` set D) U))"
    using dU by (simp only: distinct_card distinct_filter)
  also have "\<dots> = card (set U - set D)"
    by (simp only: eq)
  also have "\<dots> = card (set U) - card (set D)"
    using assms(2) by (simp add: card_Diff_subset)
  also have "\<dots> = length U - length D"
    using dU assms(3) by (simp add: distinct_card)
  finally show ?thesis .
qed

lemma singleton_list: "length xs \<le> 1 \<Longrightarrow> x \<in> set xs \<Longrightarrow> xs = [x]"
  by (cases xs) auto

lemma take_le_drop_sorted:
  assumes "sorted (map f L)" and "x \<in> set (take m L)" and "y \<in> set (drop m L)"
  shows "f x \<le> f y"
proof -
  have "sorted (map f (take m L) @ map f (drop m L))"
    using assms(1) by (simp flip: map_append)
  with assms(2,3) show ?thesis by (auto simp: sorted_append)
qed


lemma sessionsToDelete_props:
  assumes "distinct (map s_token U)"
  shows "set (sessionsToDelete keep U) \<subseteq> set U"
    and "distinct (sessionsToDelete keep U)"
    and "\<forall>d \<in> set (sessionsToDelete keep U). s_token d \<noteq> keep"
    and "length (sessionsToDelete keep U) = length U - MAX_SESSIONS_PER_USER"
proof -
  let ?L = "sort_key s_createdAt (filter (\<lambda>s. s_token s \<noteq> keep) U)"
  let ?m = "length U - MAX_SESSIONS_PER_USER"
  have D: "sessionsToDelete keep U = take ?m ?L"
    by (simp add: sessionsToDelete_def)
  have sub: "set (take ?m ?L) \<subseteq> set ?L" by (rule set_take_subset)
  show "set (sessionsToDelete keep U) \<subseteq> set U"
    using sub by (auto simp: D)
  have "distinct U" using assms by (simp add: distinct_map)
  then show "distinct (sessionsToDelete keep U)"
    by (simp add: D)
  show "\<forall>d \<in> set (sessionsToDelete keep U). s_token d \<noteq> keep"
    using sub by (auto simp: D)
  have "length U - 1 \<le> length ?L"
    using length_filter_other_keys [OF assms, of keep] by simp
  then show "length (sessionsToDelete keep U) = length U - MAX_SESSIONS_PER_USER"
    by (simp add: D MAX_SESSIONS_PER_USER_def)
qed

lemma owner_sessions_unique:
  "unique_tokens tbl \<Longrightarrow> distinct (map s_token (owner_sessions owner tbl))"
  by (simp add: unique_tokens_def owner_sessions_def db_select_all_def distinct_map_filter)

lemma owner_sessions_filter:
  "owner_sessions owner (filter Q tbl) = filter Q (owner_sessions owner tbl)"
  by (auto simp: owner_sessions_def db_select_all_def intro: filter_cong)

lemma enforceSessionLimit_over:
  assumes "MAX_SESSIONS_PER_USER < length (owner_sessions owner tbl)"
  shows "enforceSessionLimit owner keep tbl =
           (length (sessionsToDelete keep (owner_sessions owner tbl)),
            filter (\<lambda>r. s_token r \<notin> s_token ` set (sessionsToDelete keep (owner_sessions owner tbl))) tbl)"
  using assms by (simp add: enforceSessionLimit_def owner_sessions_def delete_each_eq Let_def)

lemma enforceSessionLimit_within:
  assumes "length (owner_sessions owner tbl) \<le> MAX_SESSIONS_PER_USER"
  shows "enforceSessionLimit owner keep tbl = (0, tbl)"
  using assms by (simp add: enforceSessionLimit_def owner_sessions_def Let_def)

text \<open>
  C5 (as amended). Tokens being unique: if the owner has at most
  \<open>MAX_SESSIONS_PER_USER\<close> sessions, \<open>enforceSessionLimit\<close> changes nothing and returns 0.
  Otherwise it deletes exactly the rows of \<open>sessionsToDelete\<close>, a prefix of the owner's
  other sessions in ascending \<open>createdAt\<close> order; it returns the number of rows it deleted;
  the owner is left with exactly \<open>MAX_SESSIONS_PER_USER\<close> sessions; no session with the
  kept token and no session of another owner is deleted; and every deleted session is at
  least as old as every other session the owner keeps. When the kept token belongs to one
  of the owner's sessions, the owner's only session after the call is that one, so the
  owner's active sessions are that session if it has not expired and none otherwise.
\<close>

theorem enforceSessionLimit_evicts_oldest:
  assumes "unique_tokens tbl"
  shows "(length (owner_sessions owner tbl) \<le> MAX_SESSIONS_PER_USER \<longrightarrow>
            enforceSessionLimit owner keep tbl = (0, tbl))
       \<and> (MAX_SESSIONS_PER_USER < length (owner_sessions owner tbl) \<longrightarrow>
            snd (enforceSessionLimit owner keep tbl)
              = filter (\<lambda>r. r \<notin> set (sessionsToDelete keep (owner_sessions owner tbl))) tbl
            \<and> fst (enforceSessionLimit owner keep tbl)
              = length tbl - length (snd (enforceSessionLimit owner keep tbl))
            \<and> fst (enforceSessionLimit owner keep tbl)
              = length (owner_sessions owner tbl) - MAX_SESSIONS_PER_USER
            \<and> length (owner_sessions owner (snd (enforceSessionLimit owner keep tbl)))
              = MAX_SESSIONS_PER_USER
            \<and> (\<forall>s \<in> set tbl. s_token s = keep \<or> s_userId s \<noteq> owner \<longrightarrow>
                  s \<in> set (snd (enforceSessionLimit owner keep tbl)))
            \<and> (\<forall>d \<in> set tbl - set (snd (enforceSessionLimit owner keep tbl)).
                \<forall>s \<in> set (owner_sessions owner (snd (enforceSessionLimit owner keep tbl))).
                  s_token s \<noteq> keep \<longrightarrow> s_createdAt d \<le> s_createdAt s))
       \<and> (\<forall>k \<in> set (owner_sessions owner tbl). s_token k = keep \<longrightarrow>
            getUserActiveSessions now owner (snd (enforceSessionLimit owner keep tbl))
              = (if now < s_expiresAt k then [k] else []))"
proof -
  let ?U = "owner_sessions owner tbl"
  let ?D = "sessionsToDelete keep ?U"
  let ?r = "enforceSessionLimit owner keep tbl"
  let ?L = "sort_key s_createdAt (filter (\<lambda>s. s_token s \<noteq> keep) ?U)"
  let ?m = "length ?U - MAX_SESSIONS_PER_USER"
  note uU = owner_sessions_unique [OF assms, of owner]
  note D = sessionsToDelete_props [OF uU, of keep]
  have utbl: "distinct (map s_token tbl)" using assms by (simp add: unique_tokens_def)
  have inj: "inj_on s_token (set tbl)" using utbl by (simp add: distinct_map)
  have Usub: "set ?U \<subseteq> set tbl" by (auto simp: owner_sessions_def db_select_all_def)
  have Dsub: "set ?D \<subseteq> set tbl" using D(1) Usub by blast
  have tok: "\<And>r. r \<in> set tbl \<Longrightarrow> (s_token r \<in> s_token ` set ?D) = (r \<in> set ?D)"
    using inj Dsub by (auto dest: inj_onD)
  have filt: "filter (\<lambda>r. s_token r \<notin> s_token ` set ?D) tbl = filter (\<lambda>r. r \<notin> set ?D) tbl"
    by (rule filter_cong) (simp_all add: tok)
  have within: "length ?U \<le> MAX_SESSIONS_PER_USER \<longrightarrow> ?r = (0, tbl)"
    by (simp add: enforceSessionLimit_within)
  have active: "\<And>t. getUserActiveSessions now owner t
                    = filter (\<lambda>s. now < s_expiresAt s) (owner_sessions owner t)"
    by (auto simp: getUserActiveSessions_def owner_sessions_def db_select_all_def intro: filter_cong)
  have over: "MAX_SESSIONS_PER_USER < length ?U \<longrightarrow>
            snd ?r = filter (\<lambda>r. r \<notin> set ?D) tbl
            \<and> fst ?r = length tbl - length (snd ?r)
            \<and> fst ?r = length ?U - MAX_SESSIONS_PER_USER
            \<and> length (owner_sessions owner (snd ?r)) = MAX_SESSIONS_PER_USER
            \<and> (\<forall>s \<in> set tbl. s_token s = keep \<or> s_userId s \<noteq> owner \<longrightarrow> s \<in> set (snd ?r))
            \<and> (\<forall>d \<in> set tbl - set (snd ?r). \<forall>s \<in> set (owner_sessions owner (snd ?r)).
                  s_token s \<noteq> keep \<longrightarrow> s_createdAt d \<le> s_createdAt s)"
  proof
    assume big: "MAX_SESSIONS_PER_USER < length ?U"
    have r: "?r = (length ?D, filter (\<lambda>r. s_token r \<notin> s_token ` set ?D) tbl)"
      using big by (rule enforceSessionLimit_over)
    have s1: "snd ?r = filter (\<lambda>r. r \<notin> set ?D) tbl"
      by (simp add: r filt)
    have len_tbl: "length (snd ?r) = length tbl - length ?D"
      using length_filter_without [OF utbl Dsub D(2)] by (simp add: r)
    have "length ?D \<le> length tbl"
      using D(2) Dsub utbl
      by (metis card_mono distinct_card distinct_map finite_set)
    then have s2: "fst ?r = length tbl - length (snd ?r)"
      using len_tbl by (simp add: r)
    have s3: "fst ?r = length ?U - MAX_SESSIONS_PER_USER"
      by (simp add: r D(4))
    have U': "owner_sessions owner (snd ?r) = filter (\<lambda>r. s_token r \<notin> s_token ` set ?D) ?U"
      by (simp add: r owner_sessions_filter)
    have "length (owner_sessions owner (snd ?r)) = length ?U - length ?D"
      using length_filter_without [OF uU D(1) D(2)] by (simp add: U')
    then have s4: "length (owner_sessions owner (snd ?r)) = MAX_SESSIONS_PER_USER"
      using big by (simp add: D(4))
    have s5: "\<forall>s \<in> set tbl. s_token s = keep \<or> s_userId s \<noteq> owner \<longrightarrow> s \<in> set (snd ?r)"
    proof (intro ballI impI)
      fix s assume "s \<in> set tbl" and c: "s_token s = keep \<or> s_userId s \<noteq> owner"
      have "s \<notin> set ?D"
      proof
        assume "s \<in> set ?D"
        then have "s_token s \<noteq> keep" and "s \<in> set ?U" using D(1,3) by auto
        then show False using c by (auto simp: owner_sessions_def db_select_all_def)
      qed
      with \<open>s \<in> set tbl\<close> show "s \<in> set (snd ?r)" by (simp add: s1)
    qed
    have sorted: "sorted (map s_createdAt ?L)" by simp
    have s6: "\<forall>d \<in> set tbl - set (snd ?r). \<forall>s \<in> set (owner_sessions owner (snd ?r)).
                  s_token s \<noteq> keep \<longrightarrow> s_createdAt d \<le> s_createdAt s"
    proof (intro ballI impI)
      fix d s
      assume d: "d \<in> set tbl - set (snd ?r)"
        and s: "s \<in> set (owner_sessions owner (snd ?r))"
        and nk: "s_token s \<noteq> keep"
      from d have "d \<in> set ?D" by (auto simp: s1)
      then have dt: "d \<in> set (take ?m ?L)" by (simp add: sessionsToDelete_def)
      from s have sU: "s \<in> set ?U" and "s_token s \<notin> s_token ` set ?D" by (auto simp: U')
      then have "s \<notin> set ?D" by auto
      then have "s \<notin> set (take ?m ?L)" by (simp add: sessionsToDelete_def)
      moreover have "s \<in> set ?L" using sU nk by simp
      moreover have "set ?L = set (take ?m ?L) \<union> set (drop ?m ?L)"
        by (metis append_take_drop_id set_append)
      ultimately have "s \<in> set (drop ?m ?L)" by blast
      with sorted dt show "s_createdAt d \<le> s_createdAt s"
        by (rule take_le_drop_sorted)
    qed
    from s1 s2 s3 s4 s5 s6 show "snd ?r = filter (\<lambda>r. r \<notin> set ?D) tbl
            \<and> fst ?r = length tbl - length (snd ?r)
            \<and> fst ?r = length ?U - MAX_SESSIONS_PER_USER
            \<and> length (owner_sessions owner (snd ?r)) = MAX_SESSIONS_PER_USER
            \<and> (\<forall>s \<in> set tbl. s_token s = keep \<or> s_userId s \<noteq> owner \<longrightarrow> s \<in> set (snd ?r))
            \<and> (\<forall>d \<in> set tbl - set (snd ?r). \<forall>s \<in> set (owner_sessions owner (snd ?r)).
                  s_token s \<noteq> keep \<longrightarrow> s_createdAt d \<le> s_createdAt s)"
      by blast
  qed
  have kept: "\<forall>k \<in> set ?U. s_token k = keep \<longrightarrow>
            getUserActiveSessions now owner (snd ?r) = (if now < s_expiresAt k then [k] else [])"
  proof (intro ballI impI)
    fix k assume kU: "k \<in> set ?U" and kk: "s_token k = keep"
    have "owner_sessions owner (snd ?r) = [k]"
    proof (cases "length ?U \<le> MAX_SESSIONS_PER_USER")
      case True
      then have "snd ?r = tbl" using within by simp
      moreover have "?U = [k]"
        using True kU by (intro singleton_list) (simp_all add: MAX_SESSIONS_PER_USER_def)
      ultimately show ?thesis by simp
    next
      case False
      then have big: "MAX_SESSIONS_PER_USER < length ?U" by simp
      have "length (owner_sessions owner (snd ?r)) = MAX_SESSIONS_PER_USER"
        using over big by blast
      then have len: "length (owner_sessions owner (snd ?r)) \<le> 1"
        by (simp only: MAX_SESSIONS_PER_USER_def)
      have "k \<in> set tbl" using kU Usub by blast
      then have "k \<in> set (snd ?r)" using over big kk by blast
      then have "k \<in> set (owner_sessions owner (snd ?r))"
        using kU by (simp add: owner_sessions_def db_select_all_def)
      with len show ?thesis by (rule singleton_list)
    qed
    then show "getUserActiveSessions now owner (snd ?r) = (if now < s_expiresAt k then [k] else [])"
      by (simp add: active)
  qed
  from within over kept show ?thesis by blast
qed


theorem enforceSessionLimit_evicts_oldest_witness:
  "fst (enforceSessionLimit 7 ''T2''
     [\<lparr> s_id = 1, s_userId = 7, s_token = ''T1'', s_createdAt = 5, s_expiresAt = 100 \<rparr>,
      \<lparr> s_id = 2, s_userId = 7, s_token = ''T2'', s_createdAt = 9, s_expiresAt = 100 \<rparr>,
      \<lparr> s_id = 3, s_userId = 8, s_token = ''T3'', s_createdAt = 1, s_expiresAt = 100 \<rparr>]) = 1
   \<and> getUserActiveSessions 0 7 (snd (enforceSessionLimit 7 ''T2''
     [\<lparr> s_id = 1, s_userId = 7, s_token = ''T1'', s_createdAt = 5, s_expiresAt = 100 \<rparr>,
      \<lparr> s_id = 2, s_userId = 7, s_token = ''T2'', s_createdAt = 9, s_expiresAt = 100 \<rparr>,
      \<lparr> s_id = 3, s_userId = 8, s_token = ''T3'', s_createdAt = 1, s_expiresAt = 100 \<rparr>]))
     = [\<lparr> s_id = 2, s_userId = 7, s_token = ''T2'', s_createdAt = 9, s_expiresAt = 100 \<rparr>]"
proof -
  let ?s1 = "\<lparr> s_id = 1, s_userId = 7, s_token = ''T1'', s_createdAt = 5, s_expiresAt = 100 \<rparr>"
  let ?s2 = "\<lparr> s_id = 2, s_userId = 7, s_token = ''T2'', s_createdAt = 9, s_expiresAt = 100 \<rparr>"
  let ?s3 = "\<lparr> s_id = 3, s_userId = 8, s_token = ''T3'', s_createdAt = 1, s_expiresAt = 100 \<rparr>"
  let ?tbl = "[?s1, ?s2, ?s3]"
  have u: "unique_tokens ?tbl" by (simp add: unique_tokens_def)
  have U: "owner_sessions 7 ?tbl = [?s1, ?s2]"
    by (simp add: owner_sessions_def db_select_all_def)
  have big: "MAX_SESSIONS_PER_USER < length (owner_sessions 7 ?tbl)"
    using U by (simp add: MAX_SESSIONS_PER_USER_def)
  have k: "?s2 \<in> set (owner_sessions 7 ?tbl)" and kk: "s_token ?s2 = ''T2''"
    using U by simp_all
  note t = enforceSessionLimit_evicts_oldest [OF u, of 7 "''T2''" 0]
  have "fst (enforceSessionLimit 7 ''T2'' ?tbl) = length (owner_sessions 7 ?tbl) - MAX_SESSIONS_PER_USER"
    using t big by blast
  moreover have "getUserActiveSessions 0 7 (snd (enforceSessionLimit 7 ''T2'' ?tbl))
                   = (if 0 < s_expiresAt ?s2 then [?s2] else [])"
    using t k kk by blast
  ultimately show ?thesis using U by (simp add: MAX_SESSIONS_PER_USER_def)
qed

text \<open>
  With a kept token that is not one of the owner's, the session the owner is left with
  is the newest of the owner's own: here owner 7 keeps \<open>T2\<close>, although the kept token
  \<open>T3\<close> names a session (of owner 8) that is stored and has not expired.
\<close>

theorem enforceSessionLimit_foreign_keepToken_counterexample:
  "enforceSessionLimit 7 ''T3''
     [\<lparr> s_id = 1, s_userId = 7, s_token = ''T1'', s_createdAt = 5, s_expiresAt = 100 \<rparr>,
      \<lparr> s_id = 2, s_userId = 7, s_token = ''T2'', s_createdAt = 9, s_expiresAt = 100 \<rparr>,
      \<lparr> s_id = 3, s_userId = 8, s_token = ''T3'', s_createdAt = 1, s_expiresAt = 100 \<rparr>]
   = (1, [\<lparr> s_id = 2, s_userId = 7, s_token = ''T2'', s_createdAt = 9, s_expiresAt = 100 \<rparr>,
          \<lparr> s_id = 3, s_userId = 8, s_token = ''T3'', s_createdAt = 1, s_expiresAt = 100 \<rparr>])
   \<and> getUserActiveSessions 0 7
       [\<lparr> s_id = 2, s_userId = 7, s_token = ''T2'', s_createdAt = 9, s_expiresAt = 100 \<rparr>,
        \<lparr> s_id = 3, s_userId = 8, s_token = ''T3'', s_createdAt = 1, s_expiresAt = 100 \<rparr>]
     = [\<lparr> s_id = 2, s_userId = 7, s_token = ''T2'', s_createdAt = 9, s_expiresAt = 100 \<rparr>]
   \<and> s_token \<lparr> s_id = 2, s_userId = 7, s_token = ''T2'', s_createdAt = 9, s_expiresAt = 100 \<rparr>
       \<noteq> ''T3''
   \<and> fst (validateSessionToken 0 ''T3''
       [\<lparr> s_id = 2, s_userId = 7, s_token = ''T2'', s_createdAt = 9, s_expiresAt = 100 \<rparr>,
        \<lparr> s_id = 3, s_userId = 8, s_token = ''T3'', s_createdAt = 1, s_expiresAt = 100 \<rparr>])
     = Some \<lparr> s_id = 3, s_userId = 8, s_token = ''T3'', s_createdAt = 1, s_expiresAt = 100 \<rparr>"
  by (simp add: enforceSessionLimit_def sessionsToDelete_def db_select_all_def db_delete_def
      db_select_get_def MAX_SESSIONS_PER_USER_def getUserActiveSessions_def
      validateSessionToken_def)

section \<open>Account numbers\<close>

lemma secureRandomInt_digit:
  "secureRandomInt entropy 0 9 pos = Inr (int (entropy pos mod 10), Suc pos)"
  by (simp add: secureRandomInt_def crypto_randomInt_def)

lemma digit_char_numeric: "digit_char d \<in> set ''0123456789''"
  unfolding digit_char_def by (rule nth_mem) simp

lemma Number_toString_digit: "Number_toString (int (n mod 10)) = [digit_char (n mod 10)]"
  by (simp add: Number_toString_def decimal.simps)

lemma numeric_loop_digits:
  "\<exists>s. numeric_loop entropy k result pos = Inr (result @ s, pos + k)
       \<and> length s = k \<and> set s \<subseteq> set ''0123456789''"
proof (induction k arbitrary: result pos)
  case 0
  then show ?case by simp
next
  case (Suc k)
  let ?c = "digit_char (entropy pos mod 10)"
  from Suc [of "result @ [?c]" "Suc pos"] obtain s where
    s: "numeric_loop entropy k (result @ [?c]) (Suc pos) = Inr ((result @ [?c]) @ s, Suc pos + k)"
       "length s = k" "set s \<subseteq> set ''0123456789''"
    by blast
  have "numeric_loop entropy (Suc k) result pos = Inr (result @ (?c # s), pos + Suc k)"
    using s(1) by (simp add: secureRandomInt_digit Number_toString_digit)
  moreover have "length (?c # s) = Suc k" using s(2) by simp
  moreover have "set (?c # s) \<subseteq> set ''0123456789''"
    using s(3) digit_char_numeric [of "entropy pos mod 10"] by (simp del: set_simps add: insert_subset list.set(2))
  ultimately show ?case by blast
qed

lemma generateSecureAccountNumber_shape:
  "\<exists>s. generateSecureAccountNumber entropy pos = Inr (s, pos + 10)
       \<and> length s = 10 \<and> set s \<subseteq> set ''0123456789''"
  using numeric_loop_digits [of entropy 10 "[]" pos]
  by (simp add: generateSecureAccountNumber_def secureRandomNumeric_def)

lemma unique_number_loop_fresh:
  "unique_number_loop fuel entropy accs pos = Some r \<Longrightarrow>
     \<exists>n pos'. r = Inr (n, pos') \<and> n \<notin> a_accountNumber ` set accs
              \<and> length n = 10 \<and> set n \<subseteq> set ''0123456789''"
proof (induction fuel arbitrary: pos)
  case 0
  then show ?case by simp
next
  case (Suc fuel)
  obtain s where s: "generateAccountNumber entropy pos = Inr (s, pos + 10)"
      "length s = 10" "set s \<subseteq> set ''0123456789''"
    using generateSecureAccountNumber_shape [of entropy pos]
    by (auto simp: generateAccountNumber_def)
  show ?case
  proof (cases "find (\<lambda>a. a_accountNumber a = s) accs")
    case None
    then have "s \<notin> a_accountNumber ` set accs" by (auto simp: find_None_iff)
    moreover from None Suc.prems s(1) have "r = Inr (s, pos + 10)"
      by (simp add: db_select_get_def)
    ultimately show ?thesis using s(2,3) by blast
  next
    case (Some a)
    with Suc.prems s(1) have "unique_number_loop fuel entropy accs (pos + 10) = Some r"
      by (simp add: db_select_get_def)
    then show ?thesis by (rule Suc.IH)
  qed
qed


lemma unique_number_loop_returns:
  assumes "generateAccountNumber entropy (pos + 10 * j) = Inr (n, p)"
    and "n \<notin> a_accountNumber ` set accs" and "j < fuel"
  shows "unique_number_loop fuel entropy accs pos \<noteq> None"
  using assms
proof (induction fuel arbitrary: pos j)
  case 0
  then show ?case by simp
next
  case (Suc fuel)
  obtain s where s: "generateAccountNumber entropy pos = Inr (s, pos + 10)"
    using generateSecureAccountNumber_shape [of entropy pos]
    by (auto simp: generateAccountNumber_def)
  show ?case
  proof (cases "find (\<lambda>a. a_accountNumber a = s) accs")
    case None
    with s show ?thesis by (simp add: db_select_get_def)
  next
    case (Some a)
    have taken: "s \<in> a_accountNumber ` set accs"
    proof (rule ccontr)
      assume "s \<notin> a_accountNumber ` set accs"
      then have "find (\<lambda>a. a_accountNumber a = s) accs = None"
        by (auto simp: find_None_iff)
      with Some show False by simp
    qed
    have "j \<noteq> 0"
    proof
      assume "j = 0"
      with Suc.prems(1) s have "n = s" by simp
      with taken Suc.prems(2) show False by simp
    qed
    then obtain j' where j: "j = Suc j'" by (cases j) auto
    have "generateAccountNumber entropy ((pos + 10) + 10 * j') = Inr (n, p)"
      using Suc.prems(1) by (simp add: j add.assoc)
    moreover have "j' < fuel" using Suc.prems(3) j by simp
    ultimately have "unique_number_loop fuel entropy accs (pos + 10) \<noteq> None"
      using Suc.prems(2) by (intro Suc.IH)
    with Some s show ?thesis by (simp add: db_select_get_def)
  qed
qed

lemma find_snoc_fresh:
  "find P xs = None \<Longrightarrow> P x \<Longrightarrow> find P (xs @ [x]) = Some x"
  by (induction xs) (auto split: if_splits)

lemma createAccount_inserts:
  assumes "find (\<lambda>a. a_userId a = uid \<and> a_accountType a = ty) (accounts (fst st)) = None"
    and "unique_number_loop fuel entropy (accounts (fst st)) (snd st) = Some (Inr (n, pos'))"
  shows "createAccount fuel entropy lost (Some uid) ty st =
           Some (if lost then Inl (TRPCError INTERNAL_SERVER_ERROR)
                 else Inr \<lparr> a_id = next_id (map a_id (accounts (fst st))), a_userId = uid,
                           a_accountNumber = n, a_accountType = ty,
                           a_balance = 0, a_status = ''active'' \<rparr>,
                 ((fst st)\<lparr> accounts := accounts (fst st) @
                           [\<lparr> a_id = next_id (map a_id (accounts (fst st))), a_userId = uid,
                              a_accountNumber = n, a_accountType = ty,
                              a_balance = 0, a_status = ''active'' \<rparr>] \<rparr>, pos'))"
proof -
  from unique_number_loop_fresh [OF assms(2)]
  have "n \<notin> a_accountNumber ` set (accounts (fst st))" by simp
  then have "find (\<lambda>a. a_accountNumber a = n) (accounts (fst st)) = None"
    by (auto simp: find_None_iff)
  then have "find (\<lambda>a. a_accountNumber a = n) (accounts (fst st) @
               [\<lparr> a_id = next_id (map a_id (accounts (fst st))), a_userId = uid,
                  a_accountNumber = n, a_accountType = ty,
                  a_balance = 0, a_status = ''active'' \<rparr>])
           = Some \<lparr> a_id = next_id (map a_id (accounts (fst st))), a_userId = uid,
                  a_accountNumber = n, a_accountType = ty,
                  a_balance = 0, a_status = ''active'' \<rparr>"
    by (rule find_snoc_fresh) simp
  then show ?thesis
    using assms by (simp add: createAccount_def db_select_get_def Let_def)
qed

lemma createAccount_cases:
  assumes "createAccount fuel entropy lost ctx_user ty st = Some (r, st')"
  shows "(\<exists>e. r = Inl e \<and> st' = st)
       \<or> (\<exists>uid n pos'. ctx_user = Some uid
             \<and> find (\<lambda>a. a_userId a = uid \<and> a_accountType a = ty) (accounts (fst st)) = None
             \<and> unique_number_loop fuel entropy (accounts (fst st)) (snd st) = Some (Inr (n, pos')))"
  using assms
  by (auto simp: createAccount_def db_select_get_def split: option.splits sum.splits prod.splits)


text \<open>
  C7. The generator returns ten decimal digits whatever the entropy
  (\<open>generateSecureAccountNumber_shape\<close>), and \<open>createAccount\<close> inserts only a number no
  stored account has (\<open>unique_number_loop_fresh\<close>), but every digit, the first one
  included, is drawn from 0 to 9: when the first draw is 0 the account number starts
  with 0, and \<open>createAccount\<close> stores it.
\<close>

theorem generateSecureAccountNumber_leading_zero:
  "generateSecureAccountNumber (\<lambda>i. i) 0 = Inr (''0123456789'', 10)
   \<and> createAccount 1 (\<lambda>i. i) False (Some 7) Checking (empty_store :: int store, 0)
       = Some (Inr \<lparr> a_id = 1, a_userId = 7, a_accountNumber = ''0123456789'',
                      a_accountType = Checking, a_balance = 0, a_status = ''active'' \<rparr>,
               (\<lparr> accounts = [\<lparr> a_id = 1, a_userId = 7, a_accountNumber = ''0123456789'',
                                 a_accountType = Checking, a_balance = 0,
                                 a_status = ''active'' \<rparr>],
                   transactions = [] \<rparr>, 10))"
  by code_simp

text \<open>
  C8. When an account of the requested type exists for the caller, \<open>createAccount\<close> throws
  \<open>CONFLICT\<close> and the store is as before, whatever the fuel. When there is none and the
  read after the insert returns no row, every completed call throws
  \<open>INTERNAL_SERVER_ERROR\<close>, the row having been inserted. Whenever the call returns an
  account, the read was answered, and the account returned is the row the store then
  holds under that account number, a row that was not there before.
\<close>

theorem createAccount_conflict_and_lost_read:
  "((\<exists>a \<in> set (accounts (fst st)). a_userId a = uid \<and> a_accountType a = ty) \<longrightarrow>
      createAccount fuel entropy lost (Some uid) ty st = Some (Inl (TRPCError CONFLICT), st))
   \<and> ((\<forall>a \<in> set (accounts (fst st)). \<not> (a_userId a = uid \<and> a_accountType a = ty)) \<longrightarrow>
        createAccount fuel entropy True (Some uid) ty st = Some (r, st') \<longrightarrow>
          r = Inl (TRPCError INTERNAL_SERVER_ERROR)
          \<and> length (accounts (fst st')) = Suc (length (accounts (fst st))))
   \<and> (createAccount fuel entropy lost ctx_user ty st = Some (Inr acc, st') \<longrightarrow>
        \<not> lost
        \<and> db_select_get (\<lambda>a. a_accountNumber a = a_accountNumber acc) (accounts (fst st'))
            = Some acc
        \<and> acc \<in> set (accounts (fst st')) \<and> acc \<notin> set (accounts (fst st)))"
proof -
  have conflict: "(\<exists>a \<in> set (accounts (fst st)). a_userId a = uid \<and> a_accountType a = ty) \<longrightarrow>
      createAccount fuel entropy lost (Some uid) ty st = Some (Inl (TRPCError CONFLICT), st)"
  proof
  assume "\<exists>a \<in> set (accounts (fst st)). a_userId a = uid \<and> a_accountType a = ty"
  then obtain x where
    "find (\<lambda>a. a_userId a = uid \<and> a_accountType a = ty) (accounts (fst st)) = Some x"
    by (cases "find (\<lambda>a. a_userId a = uid \<and> a_accountType a = ty) (accounts (fst st))")
       (auto simp: find_None_iff)
  then show "createAccount fuel entropy lost (Some uid) ty st = Some (Inl (TRPCError CONFLICT), st)"
    by (simp add: createAccount_def db_select_get_def)
  qed
  have lost_read: "(\<forall>a \<in> set (accounts (fst st)). \<not> (a_userId a = uid \<and> a_accountType a = ty)) \<longrightarrow>
        createAccount fuel entropy True (Some uid) ty st = Some (r, st') \<longrightarrow>
          r = Inl (TRPCError INTERNAL_SERVER_ERROR)
          \<and> length (accounts (fst st')) = Suc (length (accounts (fst st)))"
  proof (intro impI)
  assume free: "\<forall>a \<in> set (accounts (fst st)). \<not> (a_userId a = uid \<and> a_accountType a = ty)"
    and run: "createAccount fuel entropy True (Some uid) ty st = Some (r, st')"
  from free have none:
    "find (\<lambda>a. a_userId a = uid \<and> a_accountType a = ty) (accounts (fst st)) = None"
    by (auto simp: find_None_iff)
  obtain res where loop: "unique_number_loop fuel entropy (accounts (fst st)) (snd st) = Some res"
    using run none
    by (cases "unique_number_loop fuel entropy (accounts (fst st)) (snd st)")
       (auto simp: createAccount_def db_select_get_def)
  from unique_number_loop_fresh [OF loop] obtain n pos' where "res = Inr (n, pos')" by blast
  with loop have "unique_number_loop fuel entropy (accounts (fst st)) (snd st) = Some (Inr (n, pos'))"
    by simp
  from createAccount_inserts [OF none this, of True] run
  show "r = Inl (TRPCError INTERNAL_SERVER_ERROR)
          \<and> length (accounts (fst st')) = Suc (length (accounts (fst st)))"
    by auto
  qed
  have genuine: "createAccount fuel entropy lost ctx_user ty st = Some (Inr acc, st') \<longrightarrow>
        \<not> lost
        \<and> db_select_get (\<lambda>a. a_accountNumber a = a_accountNumber acc) (accounts (fst st'))
            = Some acc
        \<and> acc \<in> set (accounts (fst st')) \<and> acc \<notin> set (accounts (fst st))"
  proof
  assume run: "createAccount fuel entropy lost ctx_user ty st = Some (Inr acc, st')"
  from createAccount_cases [OF run] obtain uid n pos' where
    c: "ctx_user = Some uid"
       "find (\<lambda>a. a_userId a = uid \<and> a_accountType a = ty) (accounts (fst st)) = None"
       "unique_number_loop fuel entropy (accounts (fst st)) (snd st) = Some (Inr (n, pos'))"
    by auto
  let ?new = "\<lparr> a_id = next_id (map a_id (accounts (fst st))), a_userId = uid,
                a_accountNumber = n, a_accountType = ty,
                a_balance = 0, a_status = ''active'' \<rparr> :: 'a account"
  from createAccount_inserts [OF c(2,3), of lost] run c(1)
  have nl: "\<not> lost" and acc: "acc = ?new"
    and st': "st' = ((fst st)\<lparr> accounts := accounts (fst st) @ [?new] \<rparr>, pos')"
    by (auto split: if_splits)
  from unique_number_loop_fresh [OF c(3)]
  have fresh: "n \<notin> a_accountNumber ` set (accounts (fst st))" by simp
  then have "find (\<lambda>a. a_accountNumber a = n) (accounts (fst st)) = None"
    by (auto simp: find_None_iff)
  then have "find (\<lambda>a. a_accountNumber a = n) (accounts (fst st) @ [?new]) = Some ?new"
    by (rule find_snoc_fresh) simp
  then have read: "db_select_get (\<lambda>a. a_accountNumber a = a_accountNumber acc) (accounts (fst st'))
            = Some acc"
    by (simp add: acc st' db_select_get_def)
  have "acc \<notin> set (accounts (fst st))"
  proof
    assume "acc \<in> set (accounts (fst st))"
    then have "a_accountNumber acc \<in> a_accountNumber ` set (accounts (fst st))"
      by (rule imageI)
    with fresh show False by (simp add: acc)
  qed
  with nl read show "\<not> lost
        \<and> db_select_get (\<lambda>a. a_accountNumber a = a_accountNumber acc) (accounts (fst st'))
            = Some acc
        \<and> acc \<in> set (accounts (fst st')) \<and> acc \<notin> set (accounts (fst st))"
    by (simp add: acc st')
  qed
  from conflict lost_read genuine show ?thesis by blast
qed


theorem createAccount_conflict_and_lost_read_witness:
  "createAccount 0 (\<lambda>i. i) False (Some 7) Checking
     (\<lparr> accounts = [\<lparr> a_id = 1, a_userId = 7, a_accountNumber = ''0123456789'',
                       a_accountType = Checking, a_balance = 50 :: int, a_status = ''active'' \<rparr>],
        transactions = [] \<rparr>, 10)
   = Some (Inl (TRPCError CONFLICT),
       (\<lparr> accounts = [\<lparr> a_id = 1, a_userId = 7, a_accountNumber = ''0123456789'',
                       a_accountType = Checking, a_balance = 50, a_status = ''active'' \<rparr>],
         transactions = [] \<rparr>, 10))
   \<and> map_option fst (createAccount 1 (\<lambda>i. i) True (Some 7) Checking (empty_store :: int store, 0))
       = Some (Inl (TRPCError INTERNAL_SERVER_ERROR))
   \<and> map_option fst (createAccount 1 (\<lambda>i. i) False (Some 7) Checking (empty_store :: int store, 0))
       = Some (Inr \<lparr> a_id = 1, a_userId = 7, a_accountNumber = ''0123456789'',
                      a_accountType = Checking, a_balance = 0, a_status = ''active'' \<rparr>)"
proof -
  let ?acc = "\<lparr> a_id = 1, a_userId = 7, a_accountNumber = ''0123456789'',
                a_accountType = Checking, a_balance = 50 :: int, a_status = ''active'' \<rparr>"
  let ?new = "\<lparr> a_id = 1, a_userId = 7, a_accountNumber = ''0123456789'',
                a_accountType = Checking, a_balance = 0 :: int, a_status = ''active'' \<rparr>"
  let ?st = "(\<lparr> accounts = [?acc], transactions = [] \<rparr>, 10 :: nat)"
  let ?st' = "(\<lparr> accounts = [?new], transactions = [] \<rparr>, 10 :: nat)"
  have taken: "\<exists>a \<in> set (accounts (fst ?st)). a_userId a = 7 \<and> a_accountType a = Checking"
    by simp
  have free: "\<forall>a \<in> set (accounts (fst (empty_store :: int store, 0 :: nat))).
                \<not> (a_userId a = 7 \<and> a_accountType a = Checking)"
    by (simp add: empty_store_def)
  have lost: "createAccount 1 (\<lambda>i. i) True (Some 7) Checking (empty_store :: int store, 0)
                = Some (Inl (TRPCError INTERNAL_SERVER_ERROR), ?st')"
    by code_simp
  have kept: "createAccount 1 (\<lambda>i. i) False (Some 7) Checking (empty_store :: int store, 0)
                = Some (Inr ?new, ?st')"
    by code_simp
  have "createAccount 0 (\<lambda>i. i) False (Some 7) Checking ?st = Some (Inl (TRPCError CONFLICT), ?st)"
    using createAccount_conflict_and_lost_read
      [where st = ?st and uid = 7 and ty = Checking and fuel = 0 and entropy = "\<lambda>i. i"
         and lost = False] taken
    by blast
  moreover have "Inl (TRPCError INTERNAL_SERVER_ERROR) = (Inl (TRPCError INTERNAL_SERVER_ERROR) :: error + int account)
      \<and> length (accounts (fst ?st')) = Suc (length (accounts (fst (empty_store :: int store, 0 :: nat))))"
    using createAccount_conflict_and_lost_read
      [where st = "(empty_store :: int store, 0)" and uid = 7 and ty = Checking and fuel = 1
         and entropy = "\<lambda>i. i" and r = "Inl (TRPCError INTERNAL_SERVER_ERROR)"
         and st' = ?st'] free lost
    by blast
  moreover have "db_select_get (\<lambda>a. a_accountNumber a = a_accountNumber ?new) (accounts (fst ?st'))
                   = Some ?new"
    using createAccount_conflict_and_lost_read
      [where st = "(empty_store :: int store, 0)" and ty = Checking and fuel = 1
         and entropy = "\<lambda>i. i" and lost = False and ctx_user = "Some 7" and acc = ?new
         and st' = ?st'] kept
    by blast
  ultimately show ?thesis using lost kept by simp
qed

section \<open>Reading the ledger\<close>

lemma order_by_desc_sorted:
  "sorted_wrt (\<lambda>x y. y \<le> x) (map key (order_by_desc key rows))"
proof -
  have "sorted (map (\<lambda>r. - key r) (sort_key (\<lambda>r. - key r) rows))"
    by (rule sorted_sort_key)
  then show ?thesis
    by (simp add: order_by_desc_def sorted_wrt_map)
qed

lemma order_by_desc_set: "set (order_by_desc key rows) = set rows"
  by (simp add: order_by_desc_def)

lemma left_join_fst: "fst ` set (left_join on ls rs) = set ls"
proof (induction ls)
  case Nil
  then show ?case by (simp add: left_join_def)
next
  case (Cons l ls)
  have "fst ` set (case filter (on l) rs of [] \<Rightarrow> [(l, None)]
                     | m # ms \<Rightarrow> map (\<lambda>r. (l, Some r)) (m # ms)) = {l}"
    by (cases "filter (on l) rs") (auto simp: image_iff)
  with Cons show ?case
    by (simp add: left_join_def image_Un)
qed

text \<open>
  C4. \<open>getTransactions\<close> for account \<open>X\<close> throws \<open>NOT_FOUND\<close> when no account with id
  \<open>X\<close> belongs to the caller. Otherwise it returns rows, every row has \<open>accountId = X\<close>,
  the \<open>createdAt\<close> values of the rows are non-increasing, and the rows are those of all
  the ledger entries of \<open>X\<close>.
\<close>

theorem getTransactions_filtered_and_sorted:
  "((\<forall>a \<in> set (accounts st). \<not> (a_id a = X \<and> a_userId a = uid)) \<longrightarrow>
      getTransactions (Some uid) X st = Inl (TRPCError NOT_FOUND))
   \<and> ((\<exists>a \<in> set (accounts st). a_id a = X \<and> a_userId a = uid) \<longrightarrow>
        (\<exists>rows. getTransactions (Some uid) X st = Inr rows
           \<and> (\<forall>r \<in> set rows. r_accountId r = X)
           \<and> sorted_wrt (\<lambda>x y. y \<le> x) (map r_createdAt rows)
           \<and> r_id ` set rows = t_id ` {t \<in> set (transactions st). t_accountId t = X}))"
proof -
  let ?J = "left_join (\<lambda>t a. t_accountId t = a_id a) (transactions st) (accounts st)"
  let ?F = "db_select_all (\<lambda>joined. t_accountId (fst joined) = X) ?J"
  let ?O = "order_by_desc (\<lambda>joined. t_createdAt (fst joined)) ?F"
  let ?rows = "map select_row ?O"
  have missing: "(\<forall>a \<in> set (accounts st). \<not> (a_id a = X \<and> a_userId a = uid)) \<longrightarrow>
      getTransactions (Some uid) X st = Inl (TRPCError NOT_FOUND)"
  proof
    assume "\<forall>a \<in> set (accounts st). \<not> (a_id a = X \<and> a_userId a = uid)"
    then have "find (\<lambda>a. a_id a = X \<and> a_userId a = uid) (accounts st) = None"
      by (simp add: find_None_iff)
    then show "getTransactions (Some uid) X st = Inl (TRPCError NOT_FOUND)"
      by (simp add: getTransactions_def db_select_get_def)
  qed
  have owned: "(\<exists>a \<in> set (accounts st). a_id a = X \<and> a_userId a = uid) \<longrightarrow>
        (\<exists>rows. getTransactions (Some uid) X st = Inr rows
           \<and> (\<forall>r \<in> set rows. r_accountId r = X)
           \<and> sorted_wrt (\<lambda>x y. y \<le> x) (map r_createdAt rows)
           \<and> r_id ` set rows = t_id ` {t \<in> set (transactions st). t_accountId t = X})"
  proof
    assume "\<exists>a \<in> set (accounts st). a_id a = X \<and> a_userId a = uid"
    then obtain acc where "find (\<lambda>a. a_id a = X \<and> a_userId a = uid) (accounts st) = Some acc"
      by (cases "find (\<lambda>a. a_id a = X \<and> a_userId a = uid) (accounts st)")
         (auto simp: find_None_iff)
    then have res: "getTransactions (Some uid) X st = Inr ?rows"
      by (simp add: getTransactions_def db_select_get_def)
    have setO: "set ?O = {j \<in> set ?J. t_accountId (fst j) = X}"
      by (simp add: order_by_desc_set db_select_all_def)
    have only: "\<forall>r \<in> set ?rows. r_accountId r = X"
      by (auto simp: setO select_row_def)
    have "map r_createdAt ?rows = map (\<lambda>joined. t_createdAt (fst joined)) ?O"
      by (simp add: select_row_def)
    then have desc: "sorted_wrt (\<lambda>x y. y \<le> x) (map r_createdAt ?rows)"
      by (simp only: order_by_desc_sorted)
    have "r_id ` set ?rows = (t_id \<circ> fst) ` set ?O"
      by (simp add: image_image select_row_def o_def)
    also have "\<dots> = t_id ` (fst ` {j \<in> set ?J. t_accountId (fst j) = X})"
      by (simp only: setO image_comp)
    also have "fst ` {j \<in> set ?J. t_accountId (fst j) = X}
                 = {t \<in> fst ` set ?J. t_accountId t = X}"
      by (auto simp: image_iff)
    finally have all: "r_id ` set ?rows = t_id ` {t \<in> set (transactions st). t_accountId t = X}"
      by (simp only: left_join_fst)
    from res only desc all show "\<exists>rows. getTransactions (Some uid) X st = Inr rows
           \<and> (\<forall>r \<in> set rows. r_accountId r = X)
           \<and> sorted_wrt (\<lambda>x y. y \<le> x) (map r_createdAt rows)
           \<and> r_id ` set rows = t_id ` {t \<in> set (transactions st). t_accountId t = X}"
      by blast
  qed
  from missing owned show ?thesis by blast
qed


theorem getTransactions_filtered_and_sorted_witness:
  "getTransactions (Some 7) 2
     \<lparr> accounts =
         [\<lparr> a_id = 1, a_userId = 7, a_accountNumber = ''1000000001'', a_accountType = Checking,
             a_balance = 80 :: int, a_status = ''active'' \<rparr>,
          \<lparr> a_id = 2, a_userId = 8, a_accountNumber = ''2000000002'', a_accountType = Checking,
             a_balance = 5, a_status = ''active'' \<rparr>],
       transactions =
         [\<lparr> t_id = 1, t_accountId = 1, t_type = ''deposit'', t_amount = 30,
             t_description = ''Funding from card'', t_status = ''completed'',
             t_createdAt = 100, t_processedAt = 100 \<rparr>,
          \<lparr> t_id = 2, t_accountId = 2, t_type = ''deposit'', t_amount = 5,
             t_description = ''Funding from bank'', t_status = ''completed'',
             t_createdAt = 150, t_processedAt = 150 \<rparr>,
          \<lparr> t_id = 3, t_accountId = 1, t_type = ''deposit'', t_amount = 50,
             t_description = ''Funding from card'', t_status = ''completed'',
             t_createdAt = 200, t_processedAt = 200 \<rparr>] \<rparr>
   = Inl (TRPCError NOT_FOUND)
   \<and> getTransactions (Some 7) 1
     \<lparr> accounts =
         [\<lparr> a_id = 1, a_userId = 7, a_accountNumber = ''1000000001'', a_accountType = Checking,
             a_balance = 80 :: int, a_status = ''active'' \<rparr>,
          \<lparr> a_id = 2, a_userId = 8, a_accountNumber = ''2000000002'', a_accountType = Checking,
             a_balance = 5, a_status = ''active'' \<rparr>],
       transactions =
         [\<lparr> t_id = 1, t_accountId = 1, t_type = ''deposit'', t_amount = 30,
             t_description = ''Funding from card'', t_status = ''completed'',
             t_createdAt = 100, t_processedAt = 100 \<rparr>,
          \<lparr> t_id = 2, t_accountId = 2, t_type = ''deposit'', t_amount = 5,
             t_description = ''Funding from bank'', t_status = ''completed'',
             t_createdAt = 150, t_processedAt = 150 \<rparr>,
          \<lparr> t_id = 3, t_accountId = 1, t_type = ''deposit'', t_amount = 50,
             t_description = ''Funding from card'', t_status = ''completed'',
             t_createdAt = 200, t_processedAt = 200 \<rparr>] \<rparr>
   = Inr [\<lparr> r_id = 3, r_accountId = 1, r_type = ''deposit'', r_amount = 50,
             r_description = ''Funding from card'', r_status = ''completed'',
             r_createdAt = 200, r_processedAt = 200, r_accountType = Some Checking \<rparr>,
          \<lparr> r_id = 1, r_accountId = 1, r_type = ''deposit'', r_amount = 30,
             r_description = ''Funding from card'', r_status = ''completed'',
             r_createdAt = 100, r_processedAt = 100, r_accountType = Some Checking \<rparr>]"
proof -
  let ?st = "\<lparr> accounts =
         [\<lparr> a_id = 1, a_userId = 7, a_accountNumber = ''1000000001'', a_accountType = Checking,
             a_balance = 80 :: int, a_status = ''active'' \<rparr>,
          \<lparr> a_id = 2, a_userId = 8, a_accountNumber = ''2000000002'', a_accountType = Checking,
             a_balance = 5, a_status = ''active'' \<rparr>],
       transactions =
         [\<lparr> t_id = 1, t_accountId = 1, t_type = ''deposit'', t_amount = 30,
             t_description = ''Funding from card'', t_status = ''completed'',
             t_createdAt = 100, t_processedAt = 100 \<rparr>,
          \<lparr> t_id = 2, t_accountId = 2, t_type = ''deposit'', t_amount = 5,
             t_description = ''Funding from bank'', t_status = ''completed'',
             t_createdAt = 150, t_processedAt = 150 \<rparr>,
          \<lparr> t_id = 3, t_accountId = 1, t_type = ''deposit'', t_amount = 50,
             t_description = ''Funding from card'', t_status = ''completed'',
             t_createdAt = 200, t_processedAt = 200 \<rparr>] \<rparr>"
  have foreign: "\<forall>a \<in> set (accounts ?st). \<not> (a_id a = 2 \<and> a_userId a = 7)" by simp
  have own: "\<exists>a \<in> set (accounts ?st). a_id a = 1 \<and> a_userId a = 7" by simp
  have "getTransactions (Some 7) 2 ?st = Inl (TRPCError NOT_FOUND)"
    using getTransactions_filtered_and_sorted [where st = ?st and X = 2 and uid = 7] foreign
    by blast
  moreover obtain rows where "getTransactions (Some 7) 1 ?st = Inr rows"
    and "r_id ` set rows = t_id ` {t \<in> set (transactions ?st). t_accountId t = 1}"
    using getTransactions_filtered_and_sorted [where st = ?st and X = 1 and uid = 7] own
    by blast
  moreover have "getTransactions (Some 7) 1 ?st
    = Inr [\<lparr> r_id = 3, r_accountId = 1, r_type = ''deposit'', r_amount = 50,
             r_description = ''Funding from card'', r_status = ''completed'',
             r_createdAt = 200, r_processedAt = 200, r_accountType = Some Checking \<rparr>,
          \<lparr> r_id = 1, r_accountId = 1, r_type = ''deposit'', r_amount = 30,
             r_description = ''Funding from card'', r_status = ''completed'',
             r_createdAt = 100, r_processedAt = 100, r_accountType = Some Checking \<rparr>]"
    by code_simp
  ultimately show ?thesis by simp
qed

section \<open>Funding\<close>

lemma find_unique_key_pred:
  "distinct (map k tbl) \<Longrightarrow> r \<in> set tbl \<Longrightarrow> P r \<Longrightarrow> (\<And>x. P x \<Longrightarrow> k x = k r)
     \<Longrightarrow> find P tbl = Some r"
proof (induction tbl)
  case Nil
  then show ?case by simp
next
  case (Cons x xs)
  show ?case
  proof (cases "x = r")
    case True
    with Cons.prems(3) show ?thesis by simp
  next
    case False
    with Cons.prems(1,2) have in_xs: "r \<in> set xs" and other: "k x \<noteq> k r" by auto
    from Cons.prems(1) have "distinct (map k xs)" by simp
    from Cons.IH [OF this in_xs Cons.prems(3,4)] have rest: "find P xs = Some r" .
    from other Cons.prems(4) [of x] have "\<not> P x" by blast
    with rest show ?thesis by simp
  qed
qed

lemma find_map_preserving:
  "(\<And>x. P (f x) = P x) \<Longrightarrow> find P (map f xs) = map_option f (find P xs)"
  by (induction xs) auto

lemma first_row_order_by_desc:
  assumes "rows \<noteq> []"
  shows "\<exists>r. first_row (order_by_desc key rows) = Some r \<and> r \<in> set rows"
proof (cases "order_by_desc key rows")
  case Nil
  then have "set rows = {}" by (metis order_by_desc_set set_empty)
  with assms show ?thesis by simp
next
  case (Cons r rs)
  then have "r \<in> set rows" by (metis order_by_desc_set list.set_intros(1))
  with Cons show ?thesis by (simp add: first_row_def)
qed

lemma first_row_newest:
  assumes "first_row (order_by_desc key rows) = Some f" and "r \<in> set rows"
  shows "key r \<le> key f"
proof (cases "order_by_desc key rows")
  case Nil
  with assms(1) show ?thesis by (simp add: first_row_def)
next
  case (Cons x xs)
  with assms(1) have fx: "x = f" by (simp add: first_row_def)
  have "sorted_wrt (\<lambda>x y. y \<le> x) (map key (x # xs))"
    using order_by_desc_sorted [of key rows] Cons by simp
  then have "\<forall>y \<in> set xs. key y \<le> key x" by simp
  moreover have "r \<in> set (x # xs)"
    using assms(2) Cons by (metis order_by_desc_set)
  ultimately show ?thesis using fx by auto
qed

lemma fund_unit_ok:
  "fund_unit None db_clock now input amount st =
     (Inr (first_row (order_by_desc t_createdAt
             (db_select_all (\<lambda>t. t_accountId t = in_accountId input)
                (transactions st @
                   [\<lparr> t_id = next_id (map t_id (transactions st)),
                      t_accountId = in_accountId input, t_type = ''deposit'', t_amount = amount,
                      t_description =
                        ''Funding from '' @ funding_type_name (fs_type (in_fundingSource input)),
                      t_status = ''completed'', t_createdAt = db_clock,
                      t_processedAt = now \<rparr>]))),
           db_select_get (\<lambda>a. a_id a = in_accountId input)
             (map (\<lambda>a. if a_id a = in_accountId input
                        then a\<lparr> a_balance := a_balance a + amount \<rparr> else a) (accounts st))),
      \<lparr> accounts = map (\<lambda>a. if a_id a = in_accountId input
                              then a\<lparr> a_balance := a_balance a + amount \<rparr> else a) (accounts st),
        transactions = transactions st @
                   [\<lparr> t_id = next_id (map t_id (transactions st)),
                      t_accountId = in_accountId input, t_type = ''deposit'', t_amount = amount,
                      t_description =
                        ''Funding from '' @ funding_type_name (fs_type (in_fundingSource input)),
                      t_status = ''completed'', t_createdAt = db_clock,
                      t_processedAt = now \<rparr>] \<rparr>)"
  by (simp add: fund_unit_def Let_def)

text \<open>
  What a call does when all its store calls succeed: one deposit row appended, one
  update of the balance, the balance read back. The transaction it returns is the
  newest row of the account, which is the appended row only when every earlier row of
  the account is strictly older by the store's clock.
\<close>

lemma fundAccount_completes:
  assumes "0 < in_amount input"
    and "acc \<in> set (accounts st)"
    and "a_id acc = in_accountId input" and "a_userId acc = uid"
    and "a_status acc = ''active''"
    and "distinct (map a_id (accounts st))"
  shows "\<exists>t found.
            fundAccount None db_clock now (Some uid) input st
              = (Inr \<lparr> transaction = Some found,
                       newBalance = Some (a_balance acc + in_amount input) \<rparr>,
                 \<lparr> accounts = map (\<lambda>a. if a_id a = in_accountId input
                                         then a\<lparr> a_balance := a_balance a + in_amount input \<rparr>
                                         else a) (accounts st),
                   transactions = transactions st @ [t] \<rparr>)
            \<and> t_accountId t = in_accountId input \<and> t_type t = ''deposit''
            \<and> t_status t = ''completed'' \<and> t_amount t = in_amount input
            \<and> found \<in> set (transactions st @ [t]) \<and> t_accountId found = in_accountId input
            \<and> ((\<forall>x \<in> set (transactions st).
                    t_accountId x = in_accountId input \<longrightarrow> t_createdAt x < db_clock)
                 \<longrightarrow> found = t)
            \<and> Some (a_balance acc + in_amount input)
                = map_option a_balance
                    (db_select_get (\<lambda>a. a_id a = in_accountId input)
                       (accounts (snd (fundAccount None db_clock now (Some uid) input st))))"
proof -
  let ?X = "in_accountId input"
  let ?amount = "in_amount input"
  let ?bump = "\<lambda>a. if a_id a = ?X then a\<lparr> a_balance := a_balance a + ?amount \<rparr> else a"
  let ?t = "\<lparr> t_id = next_id (map t_id (transactions st)),
              t_accountId = ?X, t_type = ''deposit'', t_amount = ?amount,
              t_description =
                ''Funding from '' @ funding_type_name (fs_type (in_fundingSource input)),
              t_status = ''completed'', t_createdAt = db_clock, t_processedAt = now \<rparr>"
  let ?st' = "\<lparr> accounts = map ?bump (accounts st), transactions = transactions st @ [?t] \<rparr>"
  let ?mine = "db_select_all (\<lambda>t. t_accountId t = ?X) (transactions st @ [?t])"
  have owned: "find (\<lambda>a. a_id a = ?X \<and> a_userId a = uid) (accounts st) = Some acc"
    using assms(6,2) by (rule find_unique_key_pred) (simp_all add: assms(3,4))
  have by_id: "find (\<lambda>a. a_id a = ?X) (accounts st) = Some acc"
    using assms(6,2) by (rule find_unique_key_pred) (simp_all add: assms(3))
  have "find (\<lambda>a. a_id a = ?X) (map ?bump (accounts st))
          = map_option ?bump (find (\<lambda>a. a_id a = ?X) (accounts st))"
    by (rule find_map_preserving) simp
  then have read: "db_select_get (\<lambda>a. a_id a = ?X) (map ?bump (accounts st))
                     = Some (acc\<lparr> a_balance := a_balance acc + ?amount \<rparr>)"
    by (simp add: by_id db_select_get_def assms(3))
  have "?mine \<noteq> []" by (simp add: db_select_all_def)
  then obtain found where
    found: "first_row (order_by_desc t_createdAt ?mine) = Some found" "found \<in> set ?mine"
    using first_row_order_by_desc by blast
  have ok: "fundAccount None db_clock now (Some uid) input st
              = (Inr \<lparr> transaction = Some found,
                       newBalance = Some (a_balance acc + ?amount) \<rparr>, ?st')"
    using assms(1,5) found(1)
    by (simp add: fundAccount_def db_select_get_def owned db_transaction_def fund_unit_ok
        read [unfolded db_select_get_def])
  have f1: "found \<in> set (transactions st @ [?t])" and f2: "t_accountId found = ?X"
    using found(2) by (auto simp: db_select_all_def)
  have newest: "(\<forall>x \<in> set (transactions st). t_accountId x = ?X \<longrightarrow> t_createdAt x < db_clock)
                  \<longrightarrow> found = ?t"
  proof
    assume older: "\<forall>x \<in> set (transactions st). t_accountId x = ?X \<longrightarrow> t_createdAt x < db_clock"
    have "?t \<in> set ?mine" by (simp add: db_select_all_def)
    with found(1) have "t_createdAt ?t \<le> t_createdAt found" by (rule first_row_newest)
    then have "db_clock \<le> t_createdAt found" by simp
    with older f2 have "found \<notin> set (transactions st)" by force
    with f1 show "found = ?t" by simp
  qed
  have readback: "Some (a_balance acc + ?amount)
                = map_option a_balance
                    (db_select_get (\<lambda>a. a_id a = ?X)
                       (accounts (snd (fundAccount None db_clock now (Some uid) input st))))"
    by (simp add: ok read)
  have "t_accountId ?t = ?X \<and> t_type ?t = ''deposit''
            \<and> t_status ?t = ''completed'' \<and> t_amount ?t = ?amount"
    by simp
  with ok f1 f2 newest readback show ?thesis by blast
qed

text \<open>
  C1. The funding unit is not undone when one of its steps fails. Account 1 of owner 7
  holds 30, with one deposit row of 30 made at second 100 of the store's clock. A
  funding of 50 whose balance update throws, after the insert of the ledger row, ends
  with the error at the caller, the new deposit row of 50 in the ledger and the balance
  still 30: neither is the ledger as before the call nor does the balance match it.
  Further, a funding of 50 made in the same second as the earlier row completes, and
  returns as its transaction the earlier row of 30, not the row it has inserted.
\<close>

theorem fundAccount_failed_update_keeps_inserted_row:
  "fundAccount (Some UpdateBalance) 200000 200450 (Some 7)
      \<lparr> in_accountId = 1, in_amount = 50 :: int,
        in_fundingSource = \<lparr> fs_type = Card, fs_accountNumber = ''4111111111111111'',
                             fs_routingNumber = None \<rparr> \<rparr>
      \<lparr> accounts =
          [\<lparr> a_id = 1, a_userId = 7, a_accountNumber = ''1000000001'', a_accountType = Checking,
              a_balance = 30, a_status = ''active'' \<rparr>],
        transactions =
          [\<lparr> t_id = 1, t_accountId = 1, t_type = ''deposit'', t_amount = 30,
              t_description = ''Funding from card'', t_status = ''completed'',
              t_createdAt = 100000, t_processedAt = 100200 \<rparr>] \<rparr>
     = (Inl store_failure,
        \<lparr> accounts =
          [\<lparr> a_id = 1, a_userId = 7, a_accountNumber = ''1000000001'', a_accountType = Checking,
              a_balance = 30, a_status = ''active'' \<rparr>],
          transactions =
          [\<lparr> t_id = 1, t_accountId = 1, t_type = ''deposit'', t_amount = 30,
              t_description = ''Funding from card'', t_status = ''completed'',
              t_createdAt = 100000, t_processedAt = 100200 \<rparr>,
           \<lparr> t_id = 2, t_accountId = 1, t_type = ''deposit'', t_amount = 50,
              t_description = ''Funding from card'', t_status = ''completed'',
              t_createdAt = 200000, t_processedAt = 200450 \<rparr>] \<rparr>)
   \<and> fundAccount None 100000 100900 (Some 7)
      \<lparr> in_accountId = 1, in_amount = 50 :: int,
        in_fundingSource = \<lparr> fs_type = Card, fs_accountNumber = ''4111111111111111'',
                             fs_routingNumber = None \<rparr> \<rparr>
      \<lparr> accounts =
          [\<lparr> a_id = 1, a_userId = 7, a_accountNumber = ''1000000001'', a_accountType = Checking,
              a_balance = 30, a_status = ''active'' \<rparr>],
        transactions =
          [\<lparr> t_id = 1, t_accountId = 1, t_type = ''deposit'', t_amount = 30,
              t_description = ''Funding from card'', t_status = ''completed'',
              t_createdAt = 100000, t_processedAt = 100200 \<rparr>] \<rparr>
     = (Inr \<lparr> transaction =
                Some \<lparr> t_id = 1, t_accountId = 1, t_type = ''deposit'', t_amount = 30,
                       t_description = ''Funding from card'', t_status = ''completed'',
                       t_createdAt = 100000, t_processedAt = 100200 \<rparr>,
              newBalance = Some 80 \<rparr>,
        \<lparr> accounts =
          [\<lparr> a_id = 1, a_userId = 7, a_accountNumber = ''1000000001'', a_accountType = Checking,
              a_balance = 80, a_status = ''active'' \<rparr>],
          transactions =
          [\<lparr> t_id = 1, t_accountId = 1, t_type = ''deposit'', t_amount = 30,
              t_description = ''Funding from card'', t_status = ''completed'',
              t_createdAt = 100000, t_processedAt = 100200 \<rparr>,
           \<lparr> t_id = 2, t_accountId = 1, t_type = ''deposit'', t_amount = 50,
              t_description = ''Funding from card'', t_status = ''completed'',
              t_createdAt = 100000, t_processedAt = 100900 \<rparr>] \<rparr>)"
  by code_simp

section \<open>The balance is the ledger sum\<close>




lemma ledger_sum_sum_list:
  "ledger_sum X (txs :: ('n::{monoid_add,uminus}) transaction list)
     = sum_list (map signed_amount (filter (\<lambda>t. t_accountId t = X) txs))"
proof -
  have "\<And>xs :: 'n list. foldl (+) 0 xs = sum_list xs"
  proof -
    fix xs :: "'n list"
    show "foldl (+) 0 xs = sum_list xs"
      by (induction xs rule: rev_induct) simp_all
  qed
  then show ?thesis by (simp add: ledger_sum_def)
qed










end
